theory Spec2Isabelle
  imports Main
begin

section \<open>Strings of the host language\<close>

text \<open>
  A \<^typ>\<open>char\<close> stands for one code unit below 256 of a JavaScript string. The white
  space of \<^verbatim>\<open>trim\<close>, of the regular expression class \<^verbatim>\<open>\s\<close> and of
  \<^verbatim>\<open>parseInt\<close> is then tab, line feed, vertical tab, form feed, carriage return,
  space and no-break space. The class \<^verbatim>\<open>\w\<close> is letters, digits and the underscore;
  the dot of a regular expression matches everything but line feed and carriage return.
\<close>

definition is_ws :: "char \<Rightarrow> bool" where
  "is_ws c = (c \<in> set [CHR 0x09, CHR 0x0A, CHR 0x0B, CHR 0x0C, CHR 0x0D, CHR 0x20, CHR 0xA0])"

definition is_word :: "char \<Rightarrow> bool" where
  "is_word c =
     (let n = (of_char c :: nat)
      in (48 \<le> n \<and> n \<le> 57) \<or> (65 \<le> n \<and> n \<le> 90) \<or> (97 \<le> n \<and> n \<le> 122) \<or> n = 95)"

definition is_line_terminator :: "char \<Rightarrow> bool" where
  "is_line_terminator c = (c = CHR 0x0A \<or> c = CHR 0x0D)"

definition trim :: "string \<Rightarrow> string" where
  "trim s = rev (dropWhile is_ws (rev (dropWhile is_ws s)))"

text \<open>\<^verbatim>\<open>s.split(sep)\<close> for a separator of one character: the pieces between the separators,
  empty pieces kept, at least one piece.\<close>

fun split_on :: "char \<Rightarrow> string \<Rightarrow> string list" where
  "split_on sep [] = [[]]"
| "split_on sep (c # cs) =
     (if c = sep then [] # split_on sep cs
      else (case split_on sep cs of [] \<Rightarrow> [[c]] | p # ps \<Rightarrow> (c # p) # ps))"

text \<open>\<^verbatim>\<open>s.split(/\s+/)\<close>: the pieces between maximal runs of white space. The flag says
  that the previous character was white space, \<open>cur\<close> is the piece being read, reversed.\<close>

fun split_ws_from :: "bool \<Rightarrow> string \<Rightarrow> string \<Rightarrow> string list" where
  "split_ws_from inws cur [] = [rev cur]"
| "split_ws_from inws cur (c # cs) =
     (if is_ws c then (if inws then split_ws_from True [] cs else rev cur # split_ws_from True [] cs)
      else split_ws_from False (c # cur) cs)"

definition split_ws :: "string \<Rightarrow> string list" where
  "split_ws s = split_ws_from False [] s"

text \<open>\<^verbatim>\<open>xs.join(" ")\<close>.\<close>

fun join_sp :: "string list \<Rightarrow> string" where
  "join_sp [] = []"
| "join_sp [x] = x"
| "join_sp (x # y # ys) = x @ '' '' @ join_sp (y # ys)"

text \<open>
  The two groups of \<^verbatim>\<open>/(\w*)(?: )*(.*)/\<close> on a line. Every part of the expression can
  match the empty string, so the match succeeds at position 0 and each greedy part takes
  all it can: the keyword is the longest prefix of word characters, then spaces are
  skipped, and the raw arguments run to the first line terminator.
\<close>

definition regex_keyword :: "string \<Rightarrow> string" where
  "regex_keyword line = takeWhile is_word line"

definition regex_RawArguments :: "string \<Rightarrow> string" where
  "regex_RawArguments line =
     takeWhile (\<lambda>c. \<not> is_line_terminator c)
       (dropWhile (\<lambda>c. c = CHR '' '') (dropWhile is_word line))"

subsection \<open>parseInt\<close>

text \<open>
  \<^verbatim>\<open>parseInt(s)\<close> without a radix: leading white space is skipped, a sign is read, the
  prefix \<^verbatim>\<open>0x\<close> selects base 16, and the longest prefix of digits is the value;
  without a digit the result is NaN, here \<open>None\<close>. The result \<^verbatim>\<open>-0\<close> behaves as 0 in
  every use below. Values are mathematical integers, which is exact below \<open>2^53\<close>.
\<close>

definition digit_of :: "nat \<Rightarrow> char \<Rightarrow> nat option" where
  "digit_of radix c =
     (let n = (of_char c :: nat);
          d = (if 48 \<le> n \<and> n \<le> 57 then Some (n - 48)
               else if 97 \<le> n \<and> n \<le> 122 then Some (n - 87)
               else if 65 \<le> n \<and> n \<le> 90 then Some (n - 55)
               else None)
      in case d of None \<Rightarrow> None | Some v \<Rightarrow> if v < radix then Some v else None)"

definition digits_value :: "nat \<Rightarrow> string \<Rightarrow> nat" where
  "digits_value radix ds = foldl (\<lambda>acc c. acc * radix + the (digit_of radix c)) 0 ds"

definition parseInt :: "string \<Rightarrow> int option" where
  "parseInt s =
     (let s1 = dropWhile is_ws s;
          neg = (case s1 of c # _ \<Rightarrow> c = CHR ''-'' | [] \<Rightarrow> False);
          s2 = (case s1 of c # r \<Rightarrow> if c = CHR ''-'' \<or> c = CHR ''+'' then r else s1 | [] \<Rightarrow> s1);
          hex = (take 2 s2 = ''0x'' \<or> take 2 s2 = ''0X'');
          radix = (if hex then 16 else 10);
          s3 = (if hex then drop 2 s2 else s2);
          ds = takeWhile (\<lambda>c. digit_of radix c \<noteq> None) s3
      in if ds = [] then None
         else Some (if neg then - int (digits_value radix ds) else int (digits_value radix ds)))"

section \<open>The OBJ parser\<close>

text \<open>Every exception that the parsers can raise is a TypeError of the host language.\<close>

datatype error = TypeError

subsection \<open>Module state\<close>

text \<open>
  A number of the host language is a value of the type parameter \<open>'n\<close>, and
  \<^verbatim>\<open>parseFloat\<close> is the parameter \<open>pf\<close> of the functions below: what is proved
  holds for every reading of number tokens.

  The \<^verbatim>\<open>data\<close> object of a geometry has four keys, each of which the cleanup at the end
  of a parse may delete: a deleted key is \<open>None\<close>.
\<close>

record 'n geometry_data =
  position :: "'n list option"
  texcoord :: "'n list option"
  normal :: "'n list option"
  color :: "'n list option"

text \<open>The fields \<^verbatim>\<open>object\<close>, \<^verbatim>\<open>groups\<close>, \<^verbatim>\<open>material\<close> and \<^verbatim>\<open>data\<close> of a
  geometry; \<open>None\<close> is \<^verbatim>\<open>undefined\<close>.\<close>

record 'n geometry_obj =
  g_object :: "string option"
  g_groups :: "string list"
  g_material :: "string option"
  g_data :: "'n geometry_data"

text \<open>
  The variables of the module. They live as long as the page, so a parse starts from the
  state the previous one left. The variable \<^verbatim>\<open>geometry\<close> refers to an object that is also
  an element of \<^verbatim>\<open>geometries\<close>: it is the position of that element.
\<close>

record 'n obj_state =
  objPositions :: "'n list list"
  objTexcoords :: "'n list list"
  objNormals :: "'n list list"
  objColors :: "'n list list"
  materialLibs :: "string list"
  geometries :: "'n geometry_obj list"
  geometry :: "nat option"
  groups :: "string list"
  material :: "string option"
  object :: "string option"

definition init_state :: "('n::zero) obj_state" where
  "init_state =
     \<lparr> objPositions = [[0, 0, 0]], objTexcoords = [[0, 0]], objNormals = [[0, 0, 0]],
       objColors = [[0, 0, 0]], materialLibs = [], geometries = [], geometry = None,
       groups = [''default''], material = Some ''default'', object = Some ''default'' \<rparr>"

text \<open>\<^verbatim>\<open>objVertexData[i]\<close>: the four tables, \<^verbatim>\<open>undefined\<close> from index 4 on.\<close>

definition objVertexData :: "'n obj_state \<Rightarrow> nat \<Rightarrow> 'n list list option" where
  "objVertexData st i =
     (if i = 0 then Some (objPositions st)
      else if i = 1 then Some (objTexcoords st)
      else if i = 2 then Some (objNormals st)
      else if i = 3 then Some (objColors st)
      else None)"

definition setGeometry :: "'n obj_state \<Rightarrow> 'n obj_state" where
  "setGeometry st =
     (case geometry st of
        Some _ \<Rightarrow> st
      | None \<Rightarrow>
          st \<lparr> geometry := Some (length (geometries st)),
               geometries := geometries st @
                 [\<lparr> g_object = object st, g_groups = groups st, g_material = material st,
                    g_data = \<lparr> position = Some [], texcoord = Some [], normal = Some [],
                               color = Some [] \<rparr> \<rparr>] \<rparr>)"

text \<open>\<^verbatim>\<open>geometry.data\<close>, when \<^verbatim>\<open>geometry\<close> is set.\<close>

definition current_data :: "'n obj_state \<Rightarrow> 'n geometry_data option" where
  "current_data st =
     (case geometry st of
        None \<Rightarrow> None
      | Some k \<Rightarrow> if k < length (geometries st) then Some (g_data (geometries st ! k)) else None)"

definition newGeometry :: "'n obj_state \<Rightarrow> error + 'n obj_state" where
  "newGeometry st =
     (case current_data st of
        None \<Rightarrow> Inr st
      | Some d \<Rightarrow>
          (case position d of
             None \<Rightarrow> Inl TypeError
           | Some ps \<Rightarrow> if length ps \<noteq> 0 then Inr (st \<lparr> geometry := None \<rparr>) else Inr st))"

subsection \<open>Emitting a vertex\<close>

datatype attr = Position | Texcoord | Normal | Color

fun get_attr :: "attr \<Rightarrow> 'n geometry_data \<Rightarrow> 'n list option" where
  "get_attr Position d = position d"
| "get_attr Texcoord d = texcoord d"
| "get_attr Normal d = normal d"
| "get_attr Color d = color d"

fun set_attr :: "attr \<Rightarrow> 'n list option \<Rightarrow> 'n geometry_data \<Rightarrow> 'n geometry_data" where
  "set_attr Position v d = d \<lparr> position := v \<rparr>"
| "set_attr Texcoord v d = d \<lparr> texcoord := v \<rparr>"
| "set_attr Normal v d = d \<lparr> normal := v \<rparr>"
| "set_attr Color v d = d \<lparr> color := v \<rparr>"

text \<open>\<^verbatim>\<open>tbl[index]\<close> for a number \<open>index\<close> (\<open>None\<close> is NaN): an element when the index is
  an integer within the array, \<^verbatim>\<open>undefined\<close> otherwise.\<close>

definition table_entry :: "'a list \<Rightarrow> int option \<Rightarrow> 'a option" where
  "table_entry tbl index =
     (case index of
        None \<Rightarrow> None
      | Some n \<Rightarrow> if 0 \<le> n \<and> n < int (length tbl) then Some (tbl ! nat n) else None)"

text \<open>
  \<^verbatim>\<open>geometry.data.key.push(...entry)\<close>. Reading \<^verbatim>\<open>push\<close> of a deleted array raises, and
  so does spreading \<^verbatim>\<open>undefined\<close>.
\<close>

definition push_spread :: "attr \<Rightarrow> 'n list option \<Rightarrow> 'n obj_state \<Rightarrow> error + 'n obj_state" where
  "push_spread a entry st =
     (case geometry st of
        None \<Rightarrow> Inl TypeError
      | Some k \<Rightarrow>
          if length (geometries st) \<le> k then Inl TypeError
          else
            (case get_attr a (g_data (geometries st ! k)) of
               None \<Rightarrow> Inl TypeError
             | Some arr \<Rightarrow>
                 (case entry of
                    None \<Rightarrow> Inl TypeError
                  | Some xs \<Rightarrow>
                      Inr (st \<lparr> geometries := (geometries st)
                             [k := (geometries st ! k)
                                \<lparr> g_data := set_attr a (Some (arr @ xs))
                                              (g_data (geometries st ! k)) \<rparr>] \<rparr>))))"

text \<open>\<^verbatim>\<open>objIndex + (objIndex >= 0 ? 0 : objVertexData[i].length)\<close>: the comparison is false
  for NaN, and reading the length of a table that does not exist raises.\<close>

definition resolve_index :: "'n obj_state \<Rightarrow> nat \<Rightarrow> int option \<Rightarrow> error + int option" where
  "resolve_index st i objIndex =
     (if (case objIndex of Some n \<Rightarrow> 0 \<le> n | None \<Rightarrow> False) then Inr objIndex
      else
        (case objVertexData st i of
           None \<Rightarrow> Inl TypeError
         | Some tbl \<Rightarrow> Inr (map_option (\<lambda>n. n + int (length tbl)) objIndex)))"

definition attr_of_slot :: "nat \<Rightarrow> attr option" where
  "attr_of_slot i =
     (if i = 0 then Some Position
      else if i = 1 then Some Texcoord
      else if i = 2 then Some Normal
      else if i = 3 then Some Color
      else None)"

text \<open>The callback of \<^verbatim>\<open>ptn.forEach\<close> in \<^verbatim>\<open>addVertex\<close>, for the sub-index at slot \<open>i\<close>.\<close>

definition addVertex_sub :: "'n obj_state \<Rightarrow> string \<Rightarrow> nat \<Rightarrow> error + 'n obj_state" where
  "addVertex_sub st objIndexStr i =
     (if objIndexStr = [] then Inr st
      else
        (case resolve_index st i (parseInt objIndexStr) of
           Inl e \<Rightarrow> Inl e
         | Inr index \<Rightarrow>
             (case (case (attr_of_slot i, objVertexData st i) of
                      (Some a, Some tbl) \<Rightarrow> push_spread a (table_entry tbl index) st
                    | _ \<Rightarrow> Inr st) of
                Inl e \<Rightarrow> Inl e
              | Inr st1 \<Rightarrow>
                  if i = 0 \<and> 1 < length (objColors st1)
                  then push_spread Color (table_entry (objColors st1) index) st1
                  else Inr st1)))"

text \<open>\<^verbatim>\<open>xs.forEach((x, i) => ...)\<close> from index \<open>i\<close> on; an exception ends the loop.\<close>

fun forEach_from :: "('s \<Rightarrow> 'a \<Rightarrow> nat \<Rightarrow> error + 's) \<Rightarrow> 's \<Rightarrow> 'a list \<Rightarrow> nat \<Rightarrow> error + 's" where
  "forEach_from f st [] i = Inr st"
| "forEach_from f st (x # xs) i =
     (case f st x i of Inl e \<Rightarrow> Inl e | Inr st1 \<Rightarrow> forEach_from f st1 xs (Suc i))"

definition addVertex :: "'n obj_state \<Rightarrow> string \<Rightarrow> error + 'n obj_state" where
  "addVertex st vert = forEach_from addVertex_sub st (split_on (CHR ''/'') vert) 0"

subsection \<open>The keyword handlers\<close>

definition kw_v :: "(string \<Rightarrow> 'n) \<Rightarrow> 'n obj_state \<Rightarrow> string list \<Rightarrow> 'n obj_state" where
  "kw_v pf st val =
     (if 3 < length val
      then st \<lparr> objPositions := objPositions st @ [map pf (take 3 val)],
                objColors := objColors st @ [map pf (drop 3 val)] \<rparr>
      else st \<lparr> objPositions := objPositions st @ [map pf val] \<rparr>)"

definition kw_vn :: "(string \<Rightarrow> 'n) \<Rightarrow> 'n obj_state \<Rightarrow> string list \<Rightarrow> 'n obj_state" where
  "kw_vn pf st val = st \<lparr> objNormals := objNormals st @ [map pf val] \<rparr>"

definition kw_vt :: "(string \<Rightarrow> 'n) \<Rightarrow> 'n obj_state \<Rightarrow> string list \<Rightarrow> 'n obj_state" where
  "kw_vt pf st val = st \<lparr> objTexcoords := objTexcoords st @ [map pf val] \<rparr>"

text \<open>The loop \<^verbatim>\<open>for (let tri = 0; tri < numTriangles; ++tri)\<close> of the handler of
  \<^verbatim>\<open>f\<close>. Within the loop \<open>tri + 2\<close> is below the length of \<open>val\<close>.\<close>

function f_loop :: "'n obj_state \<Rightarrow> string list \<Rightarrow> nat \<Rightarrow> int \<Rightarrow> error + 'n obj_state" where
  "f_loop st val tri numTriangles =
     (if int tri < numTriangles
      then
        (case addVertex st (val ! 0) of
           Inl e \<Rightarrow> Inl e
         | Inr st1 \<Rightarrow>
             (case addVertex st1 (val ! (tri + 1)) of
                Inl e \<Rightarrow> Inl e
              | Inr st2 \<Rightarrow>
                  (case addVertex st2 (val ! (tri + 2)) of
                     Inl e \<Rightarrow> Inl e
                   | Inr st3 \<Rightarrow> f_loop st3 val (tri + 1) numTriangles)))
      else Inr st)"
  by pat_completeness auto
termination
  by (relation "measure (\<lambda>(st, val, tri, numTriangles). nat (numTriangles - int tri))") auto

declare f_loop.simps [simp del]

definition kw_f :: "'n obj_state \<Rightarrow> string list \<Rightarrow> error + 'n obj_state" where
  "kw_f st val = f_loop (setGeometry st) val 0 (int (length val) - 2)"

text \<open>\<^verbatim>\<open>val[0]\<close>, which is \<^verbatim>\<open>undefined\<close> for an empty array.\<close>

definition first_of :: "string list \<Rightarrow> string option" where
  "first_of val = (case val of [] \<Rightarrow> None | x # _ \<Rightarrow> Some x)"

definition kw_mtllib :: "'n obj_state \<Rightarrow> string \<Rightarrow> 'n obj_state" where
  "kw_mtllib st RawValue = st \<lparr> materialLibs := materialLibs st @ [RawValue] \<rparr>"

definition kw_usemtl :: "'n obj_state \<Rightarrow> string list \<Rightarrow> error + 'n obj_state" where
  "kw_usemtl st val = newGeometry (st \<lparr> material := first_of val \<rparr>)"

definition kw_g :: "'n obj_state \<Rightarrow> string list \<Rightarrow> error + 'n obj_state" where
  "kw_g st val = newGeometry (st \<lparr> groups := val \<rparr>)"

definition kw_o :: "'n obj_state \<Rightarrow> string list \<Rightarrow> error + 'n obj_state" where
  "kw_o st val = newGeometry (st \<lparr> object := first_of val \<rparr>)"

subsection \<open>Looking a keyword up\<close>

text \<open>
  \<^verbatim>\<open>keywords[keyword]\<close> reads a property of an object literal, so a name that is not a key
  of the literal is looked up in \<^verbatim>\<open>Object.prototype\<close>. What is found there is not
  \<^verbatim>\<open>undefined\<close>, so the line is not skipped and the value is called, with no
  \<^verbatim>\<open>this\<close>: \<^verbatim>\<open>constructor\<close> and \<^verbatim>\<open>toString\<close> return, the other functions raise
  on converting \<^verbatim>\<open>this\<close> to an object, and \<^verbatim>\<open>__proto__\<close> is an object that cannot be
  called.
\<close>

datatype 'h property = Handler 'h | Returns | Raises

definition Object_prototype :: "string \<Rightarrow> 'h property option" where
  "Object_prototype k =
     (if k \<in> set [''constructor'', ''toString''] then Some Returns
      else if k \<in> set [''valueOf'', ''hasOwnProperty'', ''isPrototypeOf'',
                       ''propertyIsEnumerable'', ''toLocaleString'', ''__defineGetter__'',
                       ''__defineSetter__'', ''__lookupGetter__'', ''__lookupSetter__'',
                       ''__proto__'']
      then Some Raises
      else None)"

datatype obj_handler = H_v | H_vn | H_vt | H_f | H_s | H_mtllib | H_usemtl | H_g | H_o

definition keywords_obj :: "string \<Rightarrow> obj_handler property option" where
  "keywords_obj k =
     (if k = ''v'' then Some (Handler H_v)
      else if k = ''vn'' then Some (Handler H_vn)
      else if k = ''vt'' then Some (Handler H_vt)
      else if k = ''f'' then Some (Handler H_f)
      else if k = ''s'' then Some (Handler H_s)
      else if k = ''mtllib'' then Some (Handler H_mtllib)
      else if k = ''usemtl'' then Some (Handler H_usemtl)
      else if k = ''g'' then Some (Handler H_g)
      else if k = ''o'' then Some (Handler H_o)
      else Object_prototype k)"

fun call_handler ::
  "(string \<Rightarrow> 'n) \<Rightarrow> obj_handler \<Rightarrow> 'n obj_state \<Rightarrow> string list \<Rightarrow> string \<Rightarrow> error + 'n obj_state" where
  "call_handler pf H_v st val raw = Inr (kw_v pf st val)"
| "call_handler pf H_vn st val raw = Inr (kw_vn pf st val)"
| "call_handler pf H_vt st val raw = Inr (kw_vt pf st val)"
| "call_handler pf H_f st val raw = kw_f st val"
| "call_handler pf H_s st val raw = Inr st"
| "call_handler pf H_mtllib st val raw = Inr (kw_mtllib st raw)"
| "call_handler pf H_usemtl st val raw = kw_usemtl st val"
| "call_handler pf H_g st val raw = kw_g st val"
| "call_handler pf H_o st val raw = kw_o st val"

subsection \<open>The parse\<close>

text \<open>The callback of \<^verbatim>\<open>text.split('\n').forEach\<close>. A keyword that is not found only
  logs a warning.\<close>

definition process_line :: "(string \<Rightarrow> 'n) \<Rightarrow> 'n obj_state \<Rightarrow> string \<Rightarrow> error + 'n obj_state" where
  "process_line pf st line0 =
     (let line = trim line0
      in if line = [] \<or> take 1 line = ''#'' then Inr st
         else
           (let keyword = regex_keyword line;
                RawArguments = regex_RawArguments line;
                val = drop 1 (split_ws line)
            in case keywords_obj keyword of
                 None \<Rightarrow> Inr st
               | Some Returns \<Rightarrow> Inr st
               | Some Raises \<Rightarrow> Inl TypeError
               | Some (Handler h) \<Rightarrow> call_handler pf h st val RawArguments))"

definition run_lines :: "(string \<Rightarrow> 'n) \<Rightarrow> 'n obj_state \<Rightarrow> string list \<Rightarrow> error + 'n obj_state" where
  "run_lines pf st ls = forEach_from (\<lambda>s l i. process_line pf s l) st ls 0"

text \<open>The cleanup: every key of \<^verbatim>\<open>geometry.data\<close> that is present and holds an empty
  array is deleted, in every geometry of the module.\<close>

definition delete_if_empty :: "'a list option \<Rightarrow> 'a list option" where
  "delete_if_empty arr = (case arr of Some xs \<Rightarrow> if length xs = 0 then None else Some xs | None \<Rightarrow> None)"

definition cleanup :: "'n geometry_obj \<Rightarrow> 'n geometry_obj" where
  "cleanup g =
     g \<lparr> g_data :=
           \<lparr> position = delete_if_empty (position (g_data g)),
             texcoord = delete_if_empty (texcoord (g_data g)),
             normal = delete_if_empty (normal (g_data g)),
             color = delete_if_empty (color (g_data g)) \<rparr> \<rparr>"

record 'n obj_result =
  res_geometries :: "'n geometry_obj list"
  res_materialLibs :: "string list"

text \<open>\<^verbatim>\<open>ParseObjFile(text)\<close> from a state of the module: an exception, or the result and
  the state that the call leaves.\<close>

definition ParseObjFile ::
  "(string \<Rightarrow> 'n) \<Rightarrow> 'n obj_state \<Rightarrow> string \<Rightarrow> error + ('n obj_result \<times> 'n obj_state)" where
  "ParseObjFile pf st text =
     (case run_lines pf st (split_on (CHR 0x0A) text) of
        Inl e \<Rightarrow> Inl e
      | Inr st1 \<Rightarrow>
          (let st2 = st1 \<lparr> geometries := map cleanup (geometries st1) \<rparr>
           in Inr (\<lparr> res_geometries = geometries st2, res_materialLibs = materialLibs st2 \<rparr>, st2)))"

section \<open>The MTL parser\<close>

text \<open>A material record: a key that has not been written is \<open>None\<close>. The key
  \<^verbatim>\<open>illum\<close> holds the result of \<^verbatim>\<open>parseInt\<close>, which may be NaN.\<close>

record 'n material_rec =
  shininess :: "'n option"
  ambient :: "'n list option"
  diffuse :: "'n list option"
  specular :: "'n list option"
  emissive :: "'n list option"
  diffuseMap :: "string option"
  specularMap :: "string option"
  IOR :: "'n option"
  opacity :: "'n option"
  illum :: "int option option"

definition empty_material :: "'n material_rec" where
  "empty_material =
     \<lparr> shininess = None, ambient = None, diffuse = None, specular = None, emissive = None,
       diffuseMap = None, specularMap = None, IOR = None, opacity = None, illum = None \<rparr>"

text \<open>
  The object \<^verbatim>\<open>materials\<close>: its own keys, and the record that an assignment to the key
  \<^verbatim>\<open>__proto__\<close> has installed as its prototype, if any. The variable \<^verbatim>\<open>index\<close> is
  \<^verbatim>\<open>undefined\<close> until the first \<^verbatim>\<open>newmtl\<close> line with an argument.
\<close>

record 'n mtl_state =
  materials :: "string \<rightharpoonup> 'n material_rec"
  materials_proto :: "'n material_rec option"
  index :: "string option"

definition mtl_init :: "'n mtl_state" where
  "mtl_init = \<lparr> materials = Map.empty, materials_proto = None, index = None \<rparr>"

text \<open>The property key of \<^verbatim>\<open>materials[index]\<close>.\<close>

definition property_key :: "string option \<Rightarrow> string" where
  "property_key i = (case i of None \<Rightarrow> ''undefined'' | Some k \<Rightarrow> k)"

text \<open>\<^verbatim>\<open>materials[index] = {}\<close>.\<close>

definition set_material :: "'n mtl_state \<Rightarrow> 'n mtl_state" where
  "set_material st =
     (if property_key (index st) = ''__proto__''
      then st \<lparr> materials_proto := Some empty_material \<rparr>
      else st \<lparr> materials := (materials st)(property_key (index st) \<mapsto> empty_material) \<rparr>)"

text \<open>
  \<^verbatim>\<open>materials[index].key = v\<close>, the record update being \<open>upd\<close>. When the key is not
  found the read gives \<^verbatim>\<open>undefined\<close> and the write raises. In the states that the
  parser reaches the key is \<^verbatim>\<open>undefined\<close>, an own key, or \<^verbatim>\<open>__proto__\<close> with a
  prototype installed; for the other names of \<^verbatim>\<open>Object.prototype\<close> the write would fall
  on a built-in object and leave \<^verbatim>\<open>materials\<close> as it is.
\<close>

definition write_current ::
  "('n material_rec \<Rightarrow> 'n material_rec) \<Rightarrow> 'n mtl_state \<Rightarrow> error + 'n mtl_state" where
  "write_current upd st =
     (let k = property_key (index st)
      in if k = ''__proto__''
         then (case materials_proto st of
                 Some m \<Rightarrow> Inr (st \<lparr> materials_proto := Some (upd m) \<rparr>)
               | None \<Rightarrow> Inr st)
         else (case materials st k of
                 Some m \<Rightarrow> Inr (st \<lparr> materials := (materials st)(k \<mapsto> upd m) \<rparr>)
               | None \<Rightarrow>
                   if (Object_prototype k :: unit property option) = None then Inl TypeError
                   else Inr st))"

text \<open>\<^verbatim>\<open>String(val[0])\<close>, the argument that \<^verbatim>\<open>parseFloat\<close> and \<^verbatim>\<open>parseInt\<close> read.\<close>

definition arg0 :: "string list \<Rightarrow> string" where
  "arg0 val = (case val of [] \<Rightarrow> ''undefined'' | x # _ \<Rightarrow> x)"

datatype mtl_handler =
  H_newmtl | H_Ns | H_Ka | H_Kd | H_Ks | H_Ke | H_map_Kd | H_map_Ns | H_Ni | H_d | H_illum

definition keywords_mtl :: "string \<Rightarrow> mtl_handler property option" where
  "keywords_mtl k =
     (if k = ''newmtl'' then Some (Handler H_newmtl)
      else if k = ''Ns'' then Some (Handler H_Ns)
      else if k = ''Ka'' then Some (Handler H_Ka)
      else if k = ''Kd'' then Some (Handler H_Kd)
      else if k = ''Ks'' then Some (Handler H_Ks)
      else if k = ''Ke'' then Some (Handler H_Ke)
      else if k = ''map_Kd'' then Some (Handler H_map_Kd)
      else if k = ''map_Ns'' then Some (Handler H_map_Ns)
      else if k = ''Ni'' then Some (Handler H_Ni)
      else if k = ''d'' then Some (Handler H_d)
      else if k = ''illum'' then Some (Handler H_illum)
      else Object_prototype k)"

fun call_mtl_handler ::
  "(string \<Rightarrow> 'n) \<Rightarrow> mtl_handler \<Rightarrow> 'n mtl_state \<Rightarrow> string list \<Rightarrow> error + 'n mtl_state" where
  "call_mtl_handler pf H_newmtl st val = Inr (set_material (st \<lparr> index := first_of val \<rparr>))"
| "call_mtl_handler pf H_Ns st val = write_current (\<lambda>m. m \<lparr> shininess := Some (pf (arg0 val)) \<rparr>) st"
| "call_mtl_handler pf H_Ka st val = write_current (\<lambda>m. m \<lparr> ambient := Some (map pf val) \<rparr>) st"
| "call_mtl_handler pf H_Kd st val = write_current (\<lambda>m. m \<lparr> diffuse := Some (map pf val) \<rparr>) st"
| "call_mtl_handler pf H_Ks st val = write_current (\<lambda>m. m \<lparr> specular := Some (map pf val) \<rparr>) st"
| "call_mtl_handler pf H_Ke st val = write_current (\<lambda>m. m \<lparr> emissive := Some (map pf val) \<rparr>) st"
| "call_mtl_handler pf H_map_Kd st val = write_current (\<lambda>m. m \<lparr> diffuseMap := Some (join_sp val) \<rparr>) st"
| "call_mtl_handler pf H_map_Ns st val = write_current (\<lambda>m. m \<lparr> specularMap := Some (join_sp val) \<rparr>) st"
| "call_mtl_handler pf H_Ni st val = write_current (\<lambda>m. m \<lparr> IOR := Some (pf (arg0 val)) \<rparr>) st"
| "call_mtl_handler pf H_d st val = write_current (\<lambda>m. m \<lparr> opacity := Some (pf (arg0 val)) \<rparr>) st"
| "call_mtl_handler pf H_illum st val = write_current (\<lambda>m. m \<lparr> illum := Some (parseInt (arg0 val)) \<rparr>) st"

definition process_mtl_line :: "(string \<Rightarrow> 'n) \<Rightarrow> 'n mtl_state \<Rightarrow> string \<Rightarrow> error + 'n mtl_state" where
  "process_mtl_line pf st line0 =
     (let line = trim line0
      in if line = [] \<or> take 1 line = ''#'' then Inr st
         else
           (let keyword = regex_keyword line;
                val = drop 1 (split_ws line)
            in case keywords_mtl keyword of
                 None \<Rightarrow> Inr st
               | Some Returns \<Rightarrow> Inr st
               | Some Raises \<Rightarrow> Inl TypeError
               | Some (Handler h) \<Rightarrow> call_mtl_handler pf h st val))"

definition run_mtl_lines :: "(string \<Rightarrow> 'n) \<Rightarrow> 'n mtl_state \<Rightarrow> string list \<Rightarrow> error + 'n mtl_state" where
  "run_mtl_lines pf st ls = forEach_from (\<lambda>s l i. process_mtl_line pf s l) st ls 0"

text \<open>\<^verbatim>\<open>ParseMaterialFile(text)\<close>: an exception, or the state whose \<open>materials\<close> is the
  object returned.\<close>

definition ParseMaterialFile :: "(string \<Rightarrow> 'n) \<Rightarrow> string \<Rightarrow> error + 'n mtl_state" where
  "ParseMaterialFile pf text = run_mtl_lines pf mtl_init (split_on (CHR 0x0A) text)"

section \<open>Closed instances\<close>

text \<open>
  Closed instances of the theorems read number tokens with \<open>parseFloat_digits\<close>, which
  agrees with \<^verbatim>\<open>parseFloat\<close> on the decimal integer literals those instances use.
  \<open>NL\<close> is the line feed between the lines of a text.
\<close>

definition parseFloat_digits :: "string \<Rightarrow> int" where
  "parseFloat_digits s = (case parseInt s of Some n \<Rightarrow> n | None \<Rightarrow> 0)"

abbreviation (input) NL :: string where
  "NL \<equiv> [CHR 0x0A]"

section \<open>Notions used in the statements\<close>

text \<open>
  The fan of a face in the words of the specification: for the vertex references
  \<open>v0 .. v(N-1)\<close> the triangles \<open>(v0, v1, v2)\<close>, \<open>(v0, v2, v3)\<close>, ...,
  \<open>(v0, v(N-2), v(N-1))\<close>; and the emission of a list of vertex references in order.
\<close>

definition fan_triangles :: "'a list \<Rightarrow> ('a \<times> 'a \<times> 'a) list" where
  "fan_triangles vs = map (\<lambda>k. (vs ! 0, vs ! (k + 1), vs ! (k + 2))) [0 ..< length vs - 2]"

fun emit_vertices :: "'n obj_state \<Rightarrow> string list \<Rightarrow> error + 'n obj_state" where
  "emit_vertices st [] = Inr st"
| "emit_vertices st (v # vs) =
     (case addVertex st v of Inl e \<Rightarrow> Inl e | Inr st1 \<Rightarrow> emit_vertices st1 vs)"

text \<open>A line whose keyword is \<^verbatim>\<open>usemtl\<close>, \<^verbatim>\<open>g\<close> or \<^verbatim>\<open>o\<close>; a state whose
  current geometry holds at least one emitted position; a state whose current geometry,
  if there is one, still has its position array (it is deleted only by the cleanup of
  an earlier parse that left the geometry without positions).\<close>

definition state_line :: "string \<Rightarrow> bool" where
  "state_line l = (regex_keyword (trim l) \<in> set [''usemtl'', ''g'', ''o''])"

definition holds_position :: "'n obj_state \<Rightarrow> bool" where
  "holds_position st =
     (case current_data st of
        None \<Rightarrow> False
      | Some d \<Rightarrow> (case position d of None \<Rightarrow> False | Some ps \<Rightarrow> ps \<noteq> []))"

definition position_present :: "'n obj_state \<Rightarrow> bool" where
  "position_present st =
     (case current_data st of None \<Rightarrow> True | Some d \<Rightarrow> position d \<noteq> None)"

text \<open>A line whose keyword is one of the property keywords of the MTL parser.\<close>

definition property_line :: "string \<Rightarrow> bool" where
  "property_line l =
     (regex_keyword (trim l) \<in>
        set [''Ns'', ''Ka'', ''Kd'', ''Ks'', ''Ke'', ''map_Kd'', ''map_Ns'', ''Ni'', ''d'', ''illum''])"

text \<open>
  The sub-indices of a face that the tables cannot answer: a sub-index
  at slot \<open>i\<close> that is positive and greater than the number of declared entries of its
  table (the length of the array less the sentinel), or negative with a magnitude greater
  than the length of the array; and a position sub-index that resolves within the
  position table but has no color entry while the color table holds more than its sentinel.
\<close>

definition resolves_outside :: "'n obj_state \<Rightarrow> nat \<Rightarrow> string \<Rightarrow> bool" where
  "resolves_outside st i s =
     (case objVertexData st i of
        None \<Rightarrow> False
      | Some tbl \<Rightarrow>
          (case parseInt s of
             None \<Rightarrow> False
           | Some n \<Rightarrow> (0 < n \<and> int (length tbl) - 1 < n) \<or> (n < 0 \<and> int (length tbl) < - n)))"

definition color_missing :: "'n obj_state \<Rightarrow> string \<Rightarrow> bool" where
  "color_missing st s =
     (1 < length (objColors st) \<and>
      (case parseInt s of
         None \<Rightarrow> False
       | Some n \<Rightarrow>
           (let idx = (if 0 \<le> n then n else n + int (length (objPositions st)))
            in table_entry (objPositions st) (Some idx) \<noteq> None
               \<and> table_entry (objColors st) (Some idx) = None)))"

definition unanswered :: "'n obj_state \<Rightarrow> nat \<Rightarrow> string \<Rightarrow> bool" where
  "unanswered st i s = (resolves_outside st i s \<or> (i = 0 \<and> color_missing st s))"

text \<open>Two states with the same four tables.\<close>

definition same_tables :: "'n obj_state \<Rightarrow> 'n obj_state \<Rightarrow> bool" where
  "same_tables st st' =
     (objPositions st' = objPositions st \<and> objTexcoords st' = objTexcoords st
      \<and> objNormals st' = objNormals st \<and> objColors st' = objColors st)"

text \<open>
  The component width of each attribute in the data model of the specification:
  position[3], texcoord[2], normal[3], color[3]. A table is well formed when every entry
  has the width of its attribute, an output array when its length is a multiple of the
  width; a line respects the widths when a \<^verbatim>\<open>v\<close> line has 3 or 6 argument tokens,
  a \<^verbatim>\<open>vn\<close> line 3 and a \<^verbatim>\<open>vt\<close> line 2.
\<close>

fun width :: "attr \<Rightarrow> nat" where
  "width Position = 3"
| "width Texcoord = 2"
| "width Normal = 3"
| "width Color = 3"

definition tuples_of :: "attr \<Rightarrow> 'n list list \<Rightarrow> bool" where
  "tuples_of a tbl = list_all (\<lambda>e. length e = width a) tbl"

definition tables_ok :: "'n obj_state \<Rightarrow> bool" where
  "tables_ok st =
     (tuples_of Position (objPositions st) \<and> tuples_of Texcoord (objTexcoords st)
      \<and> tuples_of Normal (objNormals st) \<and> tuples_of Color (objColors st))"

definition array_ok :: "attr \<Rightarrow> 'n geometry_data \<Rightarrow> bool" where
  "array_ok a d = (case get_attr a d of None \<Rightarrow> True | Some xs \<Rightarrow> width a dvd length xs)"

definition data_ok :: "'n geometry_data \<Rightarrow> bool" where
  "data_ok d = (array_ok Position d \<and> array_ok Texcoord d \<and> array_ok Normal d \<and> array_ok Color d)"

definition widths_ok :: "'n obj_state \<Rightarrow> bool" where
  "widths_ok st = (tables_ok st \<and> list_all (\<lambda>g. data_ok (g_data g)) (geometries st))"

definition line_widths_ok :: "string \<Rightarrow> bool" where
  "line_widths_ok l =
     (let kw = regex_keyword (trim l); n = length (drop 1 (split_ws (trim l)))
      in if kw = ''v'' then n = 3 \<or> n = 6
         else if kw = ''vn'' then n = 3
         else if kw = ''vt'' then n = 2
         else True)"

text \<open>A text whose tokens are separated by single spaces: it starts and ends with a
  character that is not white space, and its only white space is a space between two such
  characters.\<close>

fun single_spaced :: "string \<Rightarrow> bool" where
  "single_spaced [] = False"
| "single_spaced [c] = (\<not> is_ws c)"
| "single_spaced (c # d # cs) =
     (\<not> is_ws c \<and> (if d = CHR '' '' then single_spaced cs else single_spaced (d # cs)))"

text \<open>
  A state in which the current geometry, if there is one, is an element of the list of
  geometries and has its four arrays. The initial state is such a state; the cleanup at
  the end of a parse can leave another kind of state behind, when it deletes an empty
  array of the geometry that stays current.
\<close>

definition arrays_present :: "'n obj_state \<Rightarrow> bool" where
  "arrays_present st =
     (case geometry st of
        None \<Rightarrow> True
      | Some k \<Rightarrow>
          k < length (geometries st)
          \<and> position (g_data (geometries st ! k)) \<noteq> None
          \<and> texcoord (g_data (geometries st ! k)) \<noteq> None
          \<and> normal (g_data (geometries st ! k)) \<noteq> None
          \<and> color (g_data (geometries st ! k)) \<noteq> None)"

text \<open>
  The number of tuples that the sub-index \<open>s\<close> at slot \<open>i\<close> appends to the array of the
  attribute \<open>a\<close>: none when the sub-index is empty; otherwise one when \<open>i\<close> is the slot of
  \<open>a\<close>, and for the color array one more when \<open>i\<close> is the position slot and the color
  table holds more than its sentinel. A vertex reference appends the tuples of its
  sub-indices.
\<close>

definition sub_pushes :: "attr \<Rightarrow> 'n obj_state \<Rightarrow> string \<Rightarrow> nat \<Rightarrow> nat" where
  "sub_pushes a st s i =
     (if s = [] then 0
      else (if attr_of_slot i = Some a then 1 else 0)
         + (if a = Color \<and> i = 0 \<and> 1 < length (objColors st) then 1 else 0))"

fun pushes_from :: "attr \<Rightarrow> 'n obj_state \<Rightarrow> string list \<Rightarrow> nat \<Rightarrow> nat" where
  "pushes_from a st [] i = 0"
| "pushes_from a st (s # ptn) i = sub_pushes a st s i + pushes_from a st ptn (Suc i)"

definition pushes :: "attr \<Rightarrow> 'n obj_state \<Rightarrow> string \<Rightarrow> nat" where
  "pushes a st vert = pushes_from a st (split_on (CHR ''/'') vert) 0"

section \<open>Properties of the OBJ parser\<close>

subsection \<open>Cleanup of empty arrays\<close>

lemma get_attr_cleanup:
  "get_attr a (g_data (cleanup g)) = delete_if_empty (get_attr a (g_data g))"
  by (cases a) (simp_all add: cleanup_def)

lemma delete_if_empty_not_empty: "delete_if_empty arr \<noteq> Some []"
  by (simp add: delete_if_empty_def split: option.splits)

text \<open>
  C5: in every geometry of the list that \<^verbatim>\<open>ParseObjFile\<close> returns, an attribute array
  that is empty when the lines have been read (nothing was emitted into it) is absent
  from the data object, not present as an empty array; an array that holds values is
  returned as it is. This holds for the position array as well as for texcoord, normal
  and color.
\<close>

theorem empty_arrays_omitted:
  assumes "ParseObjFile pf st text = Inr (res, st')"
  shows "\<exists>st1. run_lines pf st (split_on (CHR 0x0A) text) = Inr st1
           \<and> res_geometries res = map cleanup (geometries st1)
           \<and> (\<forall>k a. k < length (geometries st1) \<longrightarrow>
                 get_attr a (g_data (res_geometries res ! k)) \<noteq> Some []
               \<and> get_attr a (g_data (res_geometries res ! k)) =
                   (if get_attr a (g_data (geometries st1 ! k)) = Some [] then None
                    else get_attr a (g_data (geometries st1 ! k))))"
proof (cases "run_lines pf st (split_on (CHR 0x0A) text)")
  case (Inl e)
  with assms show ?thesis by (simp add: ParseObjFile_def)
next
  case (Inr st1)
  with assms have res: "res_geometries res = map cleanup (geometries st1)"
    by (auto simp: ParseObjFile_def Let_def)
  have "get_attr a (g_data (map cleanup (geometries st1) ! k)) \<noteq> Some []
      \<and> get_attr a (g_data (map cleanup (geometries st1) ! k)) =
          (if get_attr a (g_data (geometries st1 ! k)) = Some [] then None
           else get_attr a (g_data (geometries st1 ! k)))"
    if "k < length (geometries st1)" for k a
    using that
    by (simp add: get_attr_cleanup delete_if_empty_not_empty)
       (simp add: delete_if_empty_def split: option.splits)
  with Inr res show ?thesis by simp
qed

theorem empty_arrays_omitted_witness:
  "ParseObjFile parseFloat_digits init_state
      (''v 0 0 0'' @ NL @ ''v 1 0 0'' @ NL @ ''v 0 1 0'' @ NL @ ''f 1 2 3'' @ NL)
     = Inr (\<lparr> res_geometries =
               [\<lparr> g_object = Some ''default'', g_groups = [''default''],
                  g_material = Some ''default'',
                  g_data = \<lparr> position = Some [0, 0, 0, 1, 0, 0, 0, 1, 0], texcoord = None,
                             normal = None, color = None \<rparr> \<rparr>],
             res_materialLibs = [] \<rparr>,
           snd (projr (ParseObjFile parseFloat_digits init_state
             (''v 0 0 0'' @ NL @ ''v 1 0 0'' @ NL @ ''v 0 1 0'' @ NL @ ''f 1 2 3'' @ NL))))
   \<and> (\<exists>st1. run_lines parseFloat_digits init_state
               [''v 0 0 0'', ''v 1 0 0'', ''v 0 1 0'', ''f 1 2 3'', []] = Inr st1
          \<and> map cleanup (geometries st1) =
               [\<lparr> g_object = Some ''default'', g_groups = [''default''],
                  g_material = Some ''default'',
                  g_data = \<lparr> position = Some [0, 0, 0, 1, 0, 0, 0, 1, 0], texcoord = None,
                             normal = None, color = None \<rparr> \<rparr>])"
proof -
  let ?X = "''v 0 0 0'' @ NL @ ''v 1 0 0'' @ NL @ ''v 0 1 0'' @ NL @ ''f 1 2 3'' @ NL"
  let ?R = "\<lparr> res_geometries =
               [\<lparr> g_object = Some ''default'', g_groups = [''default''],
                  g_material = Some ''default'',
                  g_data = \<lparr> position = Some [0, 0, 0, 1, 0, 0, 0, 1, 0 :: int], texcoord = None,
                             normal = None, color = None \<rparr> \<rparr>],
             res_materialLibs = [] \<rparr>"
  have p: "ParseObjFile parseFloat_digits init_state ?X
             = Inr (?R, snd (projr (ParseObjFile parseFloat_digits init_state ?X)))"
    by code_simp
  have l: "split_on (CHR 0x0A) ?X = [''v 0 0 0'', ''v 1 0 0'', ''v 0 1 0'', ''f 1 2 3'', []]"
    by code_simp
  from empty_arrays_omitted [OF p] obtain st1 where
    r: "run_lines parseFloat_digits init_state (split_on (CHR 0x0A) ?X) = Inr st1"
    and g: "res_geometries ?R = map cleanup (geometries st1)"
    and a: "\<And>k a. k < length (geometries st1) \<Longrightarrow>
          get_attr a (g_data (res_geometries ?R ! k)) =
            (if get_attr a (g_data (geometries st1 ! k)) = Some [] then None
             else get_attr a (g_data (geometries st1 ! k)))"
    by blast
  from r l g p show ?thesis by auto
qed

subsection \<open>Lines and their handlers\<close>

lemma forEach_from_append:
  "forEach_from f st (xs @ ys) i =
     (case forEach_from f st xs i of
        Inl e \<Rightarrow> Inl e
      | Inr st1 \<Rightarrow> forEach_from f st1 ys (i + length xs))"
  by (induction xs arbitrary: st i) (auto split: sum.splits)

lemma Object_prototype_no_handler: "Object_prototype k \<noteq> Some (Handler h)"
  by (simp add: Object_prototype_def)

lemma unknown_keyword_skipped:
  "keywords_obj (regex_keyword (trim l)) = None \<Longrightarrow> process_line pf st l = Inr st"
  "keywords_mtl (regex_keyword (trim l)) = None \<Longrightarrow> process_mtl_line pf mst l = Inr mst"
  by (simp_all add: process_line_def process_mtl_line_def Let_def)

lemma keywords_obj_Nil: "keywords_obj [] = None"
  by (simp add: keywords_obj_def Object_prototype_def)

lemma regex_keyword_nonempty:
  assumes "regex_keyword line \<noteq> []"
  shows "line \<noteq> [] \<and> take 1 line \<noteq> ''#''"
proof (cases line)
  case Nil
  with assms show ?thesis by (simp add: regex_keyword_def)
next
  case (Cons c cs)
  with assms have "is_word c" by (simp add: regex_keyword_def split: if_splits)
  then have "c \<noteq> CHR ''#''" by (auto simp: is_word_def)
  with Cons show ?thesis by simp
qed

lemma process_line_handler:
  assumes "keywords_obj (regex_keyword (trim l)) = Some (Handler h)"
  shows "process_line pf st l =
           call_handler pf h st (drop 1 (split_ws (trim l))) (regex_RawArguments (trim l))"
proof -
  from assms have "regex_keyword (trim l) \<noteq> []"
    using keywords_obj_Nil by auto
  from regex_keyword_nonempty [OF this] assms show ?thesis
    by (simp add: process_line_def Let_def)
qed

subsection \<open>Fan triangulation\<close>

lemma emit_vertices_append:
  "emit_vertices st (xs @ ys) =
     (case emit_vertices st xs of Inl e \<Rightarrow> Inl e | Inr st1 \<Rightarrow> emit_vertices st1 ys)"
  by (induction xs arbitrary: st) (auto split: sum.splits)

lemma f_loop_fan:
  "numTriangles = int (length val) - 2 \<Longrightarrow>
     f_loop st val tri numTriangles =
       emit_vertices st
         (concat (map (\<lambda>k. [val ! 0, val ! (k + 1), val ! (k + 2)]) [tri ..< length val - 2]))"
proof (induction st val tri numTriangles rule: f_loop.induct)
  case (1 st val tri numTriangles)
  show ?case
  proof (cases "int tri < numTriangles")
    case False
    with "1.prems" have e: "[tri ..< length val - 2] = []" by simp
    show ?thesis
      by (subst f_loop.simps) (simp only: False if_False e list.map concat.simps emit_vertices.simps)
  next
    case True
    with "1.prems" have lt: "tri < length val - 2" by simp
    then have u: "[tri ..< length val - 2] = tri # [tri + 1 ..< length val - 2]"
      by (simp add: upt_conv_Cons)
    show ?thesis
      apply (subst f_loop.simps)
      apply (simp only: True if_True u list.map concat.simps)
      apply (simp split: sum.splits)
      using "1.IH" [OF True _ _ _ "1.prems"] apply auto
      done
  qed
qed

text \<open>
  C2: an \<^verbatim>\<open>f\<close> line with \<open>N \<ge> 3\<close> vertex references emits the vertices of exactly
  \<open>N - 2\<close> triangles into the current geometry, in the order of the fan with the first
  reference as apex: triangle \<open>k\<close> is made of the references \<open>0\<close>, \<open>k + 1\<close>, \<open>k + 2\<close>.
  The loop of the handler is compared with the fan of the specification.
\<close>

theorem face_fan_triangulation:
  assumes "regex_keyword (trim l) = ''f''" and "val = drop 1 (split_ws (trim l))"
    and "3 \<le> length val"
  shows "process_line pf st l =
           emit_vertices (setGeometry st)
             (concat (map (\<lambda>(a, b, c). [a, b, c]) (fan_triangles val)))
       \<and> int (length (fan_triangles val)) = int (length val) - 2
       \<and> (\<forall>k. int k < int (length val) - 2 \<longrightarrow>
             fan_triangles val ! k = (val ! 0, val ! (k + 1), val ! (k + 2)))"
proof -
  have "keywords_obj (regex_keyword (trim l)) = Some (Handler H_f)"
    by (simp add: assms(1) keywords_obj_def)
  from process_line_handler [OF this]
  have "process_line pf st l = kw_f st val" by (simp add: assms(2))
  moreover have "concat (map (\<lambda>(a, b, c). [a, b, c]) (fan_triangles val)) =
      concat (map (\<lambda>k. [val ! 0, val ! (k + 1), val ! (k + 2)]) [0 ..< length val - 2])"
    by (simp add: fan_triangles_def comp_def)
  ultimately have "process_line pf st l =
           emit_vertices (setGeometry st)
             (concat (map (\<lambda>(a, b, c). [a, b, c]) (fan_triangles val)))"
    by (simp add: kw_f_def f_loop_fan)
  moreover from assms(3) have "int (length (fan_triangles val)) = int (length val) - 2"
    by (simp add: fan_triangles_def)
  moreover have "fan_triangles val ! k = (val ! 0, val ! (k + 1), val ! (k + 2))"
    if "int k < int (length val) - 2" for k
  proof -
    from that have "k < length val - 2" by simp
    then show ?thesis by (simp add: fan_triangles_def)
  qed
  ultimately show ?thesis by blast
qed

theorem face_fan_triangulation_witness:
  "fan_triangles [''1'', ''2'', ''3'', ''4''] = [(''1'', ''2'', ''3''), (''1'', ''3'', ''4'')]
   \<and> process_line parseFloat_digits
         (init_state \<lparr> objPositions := [[0, 0, 0], [0, 0, 0], [1, 0, 0], [1, 1, 0], [0, 1, 0]] \<rparr>)
         ''f 1 2 3 4''
       = emit_vertices
           (setGeometry
              (init_state \<lparr> objPositions := [[0, 0, 0], [0, 0, 0], [1, 0, 0], [1, 1, 0], [0, 1, 0]] \<rparr>))
           [''1'', ''2'', ''3'', ''1'', ''3'', ''4'']
   \<and> map_option position
         (current_data (projr (process_line parseFloat_digits
            (init_state \<lparr> objPositions := [[0, 0, 0], [0, 0, 0], [1, 0, 0], [1, 1, 0], [0, 1, 0]] \<rparr>)
            ''f 1 2 3 4'')))
       = Some (Some [0, 0, 0, 1, 0, 0, 1, 1, 0, 0, 0, 0, 1, 1, 0, 0, 1, 0])"
proof -
  have k: "regex_keyword (trim ''f 1 2 3 4'') = ''f''" by code_simp
  have v: "[''1'', ''2'', ''3'', ''4''] = drop 1 (split_ws (trim ''f 1 2 3 4''))" by code_simp
  have n: "3 \<le> length [''1'', ''2'', ''3'', ''4'']" by simp
  have f: "fan_triangles [''1'', ''2'', ''3'', ''4''] = [(''1'', ''2'', ''3''), (''1'', ''3'', ''4'')]"
    by code_simp
  have c: "map_option position
         (current_data (projr (process_line parseFloat_digits
            (init_state \<lparr> objPositions := [[0, 0, 0], [0, 0, 0], [1, 0, 0], [1, 1, 0], [0, 1, 0]] \<rparr>)
            ''f 1 2 3 4'')))
       = Some (Some [0, 0, 0, 1, 0, 0, 1, 1, 0, 0, 0, 0, 1, 1, 0, 0, 1, 0])"
    by code_simp
  from face_fan_triangulation [OF k v n, of parseFloat_digits
      "init_state \<lparr> objPositions := [[0, 0, 0], [0, 0, 0], [1, 0, 0], [1, 1, 0], [0, 1, 0]] \<rparr>"]
  have "process_line parseFloat_digits
         (init_state \<lparr> objPositions := [[0, 0, 0], [0, 0, 0], [1, 0, 0], [1, 1, 0], [0, 1, 0]] \<rparr>)
         ''f 1 2 3 4''
       = emit_vertices
           (setGeometry
              (init_state \<lparr> objPositions := [[0, 0, 0], [0, 0, 0], [1, 0, 0], [1, 1, 0], [0, 1, 0]] \<rparr>))
           (concat (map (\<lambda>(a, b, c). [a, b, c]) (fan_triangles [''1'', ''2'', ''3'', ''4''])))"
    by blast
  also have "concat (map (\<lambda>(a, b, c). [a, b, c]) (fan_triangles [''1'', ''2'', ''3'', ''4'']))
      = [''1'', ''2'', ''3'', ''1'', ''3'', ''4'']"
    by (simp only: f) simp
  finally show ?thesis using f c by blast
qed

subsection \<open>The state-change gate\<close>

lemma newGeometry_gate:
  assumes "position_present st"
  shows "newGeometry st = Inr (if holds_position st then st \<lparr> geometry := None \<rparr> else st)"
  using assms
  by (auto simp: newGeometry_def position_present_def holds_position_def split: option.splits)

lemma current_data_cong:
  "geometries st' = geometries st \<Longrightarrow> geometry st' = geometry st \<Longrightarrow>
     current_data st' = current_data st"
  by (simp add: current_data_def split: option.splits)

lemma gate_after_update:
  assumes p: "process_line pf st l = newGeometry s"
    and g: "geometries s = geometries st" and c: "geometry s = geometry st"
    and pp: "position_present st"
  shows "\<exists>st'. process_line pf st l = Inr st' \<and> geometries st' = geometries st
           \<and> geometry st' = (if holds_position st then None else geometry st)"
proof -
  have d: "current_data s = current_data st" by (rule current_data_cong [OF g c])
  have "position_present s" using pp by (simp only: position_present_def d)
  from newGeometry_gate [OF this]
  have n: "newGeometry s = Inr (if holds_position s then s \<lparr> geometry := None \<rparr> else s)" .
  have h: "holds_position s = holds_position st" by (simp only: holds_position_def d)
  show ?thesis
  proof (cases "holds_position st")
    case True
    with n h have "newGeometry s = Inr (s \<lparr> geometry := None \<rparr>)" by simp
    with p g True show ?thesis by simp
  next
    case False
    with n h have "newGeometry s = Inr s" by simp
    with p g c False show ?thesis by simp
  qed
qed

lemma state_line_step:
  assumes "state_line l" and "position_present st"
  shows "\<exists>st'. process_line pf st l = Inr st' \<and> geometries st' = geometries st
           \<and> geometry st' = (if holds_position st then None else geometry st)"
proof -
  from assms(1) consider "regex_keyword (trim l) = ''usemtl''" | "regex_keyword (trim l) = ''g''"
    | "regex_keyword (trim l) = ''o''"
    by (auto simp: state_line_def)
  then show ?thesis
  proof cases
    case 1
    then have "keywords_obj (regex_keyword (trim l)) = Some (Handler H_usemtl)"
      by (simp add: keywords_obj_def)
    from process_line_handler [OF this]
    have "process_line pf st l =
        newGeometry (st \<lparr> material := first_of (drop 1 (split_ws (trim l))) \<rparr>)"
      by (simp add: kw_usemtl_def)
    from gate_after_update [OF this _ _ assms(2)] show ?thesis by simp
  next
    case 2
    then have "keywords_obj (regex_keyword (trim l)) = Some (Handler H_g)"
      by (simp add: keywords_obj_def)
    from process_line_handler [OF this]
    have "process_line pf st l = newGeometry (st \<lparr> groups := drop 1 (split_ws (trim l)) \<rparr>)"
      by (simp add: kw_g_def)
    from gate_after_update [OF this _ _ assms(2)] show ?thesis by simp
  next
    case 3
    then have "keywords_obj (regex_keyword (trim l)) = Some (Handler H_o)"
      by (simp add: keywords_obj_def)
    from process_line_handler [OF this]
    have "process_line pf st l =
        newGeometry (st \<lparr> object := first_of (drop 1 (split_ws (trim l))) \<rparr>)"
      by (simp add: kw_o_def)
    from gate_after_update [OF this _ _ assms(2)] show ?thesis by simp
  qed
qed

lemma state_lines_run:
  assumes "\<forall>l \<in> set ls. state_line l" and "position_present st"
  shows "\<exists>st'. forEach_from (\<lambda>s l i. process_line pf s l) st ls i = Inr st'
           \<and> geometries st' = geometries st
           \<and> geometry st' = (if holds_position st \<and> ls \<noteq> [] then None else geometry st)"
  using assms
proof (induction ls arbitrary: st i)
  case Nil
  then show ?case by simp
next
  case (Cons l ls)
  from Cons.prems have "state_line l" by simp
  from state_line_step [OF this Cons.prems(2), of pf] obtain st1 where
    s: "process_line pf st l = Inr st1" and g: "geometries st1 = geometries st"
    and c: "geometry st1 = (if holds_position st then None else geometry st)"
    by blast
  have pp: "position_present st1"
    using Cons.prems(2) g c
    by (auto simp: position_present_def current_data_def holds_position_def split: option.splits)
  have hp: "\<not> holds_position st \<Longrightarrow> \<not> holds_position st1"
  proof -
    assume n: "\<not> holds_position st"
    with c have "geometry st1 = geometry st" by simp
    from current_data_cong [OF g this] n show ?thesis by (simp add: holds_position_def)
  qed
  have hn: "holds_position st \<Longrightarrow> \<not> holds_position st1"
    using c by (simp add: holds_position_def current_data_def)
  from Cons.prems have "\<forall>l \<in> set ls. state_line l" by simp
  from Cons.IH [OF this pp, of "Suc i"] obtain st' where
    r: "forEach_from (\<lambda>s l i. process_line pf s l) st1 ls (Suc i) = Inr st'"
    and g': "geometries st' = geometries st1"
    and c': "geometry st' = (if holds_position st1 \<and> ls \<noteq> [] then None else geometry st1)"
    by blast
  from s r g g' c c' hp hn show ?case by auto
qed

subsection \<open>Vertex lines\<close>

text \<open>
  C4, as amended: a \<^verbatim>\<open>v\<close> line with more than 3 argument tokens appends the first 3,
  read as numbers, to the position table and the others to the color table; the new color
  entry has the index of the new position entry when the two tables had the same length
  before the line, that is when every earlier \<^verbatim>\<open>v\<close> line carried a color too. A
  \<^verbatim>\<open>v\<close> line with at most 3 tokens appends them all to the position table and leaves
  the color table as it is.
\<close>

theorem v_line_tables:
  assumes "regex_keyword (trim l) = ''v''" and "val = drop 1 (split_ws (trim l))"
  shows "\<exists>st'. process_line pf st l = Inr st'
           \<and> (3 < length val \<longrightarrow>
                 objPositions st' = objPositions st @ [map pf (take 3 val)]
               \<and> objColors st' = objColors st @ [map pf (drop 3 val)]
               \<and> (length (objColors st) = length (objPositions st) \<longrightarrow>
                    length (objColors st') = length (objPositions st')))
           \<and> (length val \<le> 3 \<longrightarrow>
                 objPositions st' = objPositions st @ [map pf val]
               \<and> objColors st' = objColors st)"
proof -
  have "keywords_obj (regex_keyword (trim l)) = Some (Handler H_v)"
    by (simp add: assms(1) keywords_obj_def)
  from process_line_handler [OF this]
  have "process_line pf st l = Inr (kw_v pf st val)" by (simp add: assms(2))
  then show ?thesis by (simp add: kw_v_def)
qed

theorem v_line_tables_witness:
  "\<exists>st'. process_line parseFloat_digits init_state ''v 1 2 3 4 5 6'' = Inr st'
      \<and> objPositions st' = [[0, 0, 0], [1, 2, 3]] \<and> objColors st' = [[0, 0, 0], [4, 5, 6]]
      \<and> length (objColors st') = length (objPositions st')"
proof -
  have k: "regex_keyword (trim ''v 1 2 3 4 5 6'') = ''v''" by code_simp
  have v: "[''1'', ''2'', ''3'', ''4'', ''5'', ''6''] = drop 1 (split_ws (trim ''v 1 2 3 4 5 6''))"
    by code_simp
  have m: "map parseFloat_digits [''1'', ''2'', ''3''] = [1, 2, 3]"
    "map parseFloat_digits [''4'', ''5'', ''6''] = [4, 5, 6]"
    by code_simp+
  from v_line_tables [OF k v, of parseFloat_digits init_state] m
  show ?thesis by (auto simp: init_state_def)
qed

theorem v_line_color_index_counterexample:
  "case ParseObjFile parseFloat_digits init_state (''v 0 0 0'' @ NL @ ''v 1 1 1 1 0 0'') of
     Inl e \<Rightarrow> False
   | Inr (res, st) \<Rightarrow>
       objPositions st = [[0, 0, 0], [0, 0, 0], [1, 1, 1]]
     \<and> objColors st = [[0, 0, 0], [1, 0, 0]]
     \<and> objPositions st ! 2 = [1, 1, 1] \<and> objColors st ! 1 = [1, 0, 0]
     \<and> length (objColors st) \<noteq> length (objPositions st)"
  by code_simp

subsection \<open>Index resolution\<close>





subsection \<open>Sub-indices outside the tables\<close>

lemma same_tables_refl: "same_tables st st"
  by (simp add: same_tables_def)

lemma same_tables_trans: "same_tables st st1 \<Longrightarrow> same_tables st1 st2 \<Longrightarrow> same_tables st st2"
  by (simp add: same_tables_def)

lemma objVertexData_same: "same_tables st st' \<Longrightarrow> objVertexData st' i = objVertexData st i"
  by (simp add: same_tables_def objVertexData_def)

lemma unanswered_same:
  assumes "same_tables st st'"
  shows "unanswered st' i s = unanswered st i s"
proof -
  from assms have c: "objColors st' = objColors st" and p: "objPositions st' = objPositions st"
    by (simp_all add: same_tables_def)
  have "resolves_outside st' i s = resolves_outside st i s"
    by (simp only: resolves_outside_def objVertexData_same [OF assms])
  moreover have "color_missing st' s = color_missing st s"
    by (simp only: color_missing_def c p)
  ultimately show ?thesis by (simp only: unanswered_def)
qed

lemma error_is_TypeError: "x = Inl e \<Longrightarrow> x = Inl TypeError"
  by (cases e) simp

lemma push_spread_None: "push_spread a None st = Inl TypeError"
  by (simp add: push_spread_def split: option.splits)

lemma push_spread_tables:
  assumes "push_spread a e st = Inr st'"
  shows "same_tables st st'"
proof -
  from assms obtain k g where "st' = st \<lparr> geometries := (geometries st)[k := g] \<rparr>"
    by (auto simp: push_spread_def split: option.splits if_splits)
  then show ?thesis by (simp add: same_tables_def)
qed

lemma addVertex_sub_tables:
  assumes "addVertex_sub st s i = Inr st'"
  shows "same_tables st st'"
proof (cases "s = []")
  case True
  with assms show ?thesis by (simp add: addVertex_sub_def same_tables_refl)
next
  case False
  define mid where "mid index =
      (case (attr_of_slot i, objVertexData st i) of
         (Some a, Some tbl) \<Rightarrow> push_spread a (table_entry tbl index) st
       | _ \<Rightarrow> Inr st)" for index
  from assms False obtain index st1 where m: "mid index = Inr st1"
    and f: "(if i = 0 \<and> 1 < length (objColors st1)
             then push_spread Color (table_entry (objColors st1) index) st1
             else Inr st1) = Inr st'"
    by (auto simp: addVertex_sub_def mid_def split: sum.splits)
  from m have "same_tables st st1"
    by (auto simp: mid_def same_tables_refl split: option.splits dest: push_spread_tables)
  moreover from f have "same_tables st1 st'"
    by (auto simp: same_tables_refl split: if_splits dest: push_spread_tables)
  ultimately show ?thesis by (rule same_tables_trans)
qed

lemma slot_of_table:
  assumes "objVertexData st i = Some tbl"
  shows "\<exists>a. attr_of_slot i = Some a"
  using assms by (simp add: objVertexData_def attr_of_slot_def split: if_splits)

lemma parseInt_nonempty: "parseInt s = Some n \<Longrightarrow> s \<noteq> []"
  by (auto simp: parseInt_def)

lemma resolves_outside_fails:
  assumes "resolves_outside st i s"
  shows "addVertex_sub st s i = Inl TypeError"
proof -
  from assms obtain tbl n where t: "objVertexData st i = Some tbl" and p: "parseInt s = Some n"
    and c: "(0 < n \<and> int (length tbl) - 1 < n) \<or> (n < 0 \<and> int (length tbl) < - n)"
    by (auto simp: resolves_outside_def split: option.splits)
  from slot_of_table [OF t] obtain a where a: "attr_of_slot i = Some a" by blast
  have r: "resolve_index st i (Some n) = Inr (Some (if 0 \<le> n then n else n + int (length tbl)))"
    by (simp add: resolve_index_def t)
  from c have e: "table_entry tbl (Some (if 0 \<le> n then n else n + int (length tbl))) = None"
    by (auto simp: table_entry_def)
  from parseInt_nonempty [OF p] show ?thesis
    by (simp add: addVertex_sub_def p r t a e push_spread_None)
qed

lemma color_missing_fails:
  assumes "color_missing st s"
  shows "addVertex_sub st s 0 = Inl TypeError"
proof -
  from assms obtain n where p: "parseInt s = Some n" and l: "1 < length (objColors st)"
    and e: "table_entry (objColors st)
              (Some (if 0 \<le> n then n else n + int (length (objPositions st)))) = None"
    by (auto simp: color_missing_def Let_def split: option.splits)
  let ?idx = "Some (if 0 \<le> n then n else n + int (length (objPositions st)))"
  have t: "objVertexData st 0 = Some (objPositions st)" by (simp add: objVertexData_def)
  have a: "attr_of_slot 0 = Some Position" by (simp add: attr_of_slot_def)
  have r: "resolve_index st 0 (Some n) = Inr ?idx" by (simp add: resolve_index_def t)
  show ?thesis
  proof (cases "push_spread Position (table_entry (objPositions st) ?idx) st")
    case (Inl x)
    then have "push_spread Position (table_entry (objPositions st) ?idx) st = Inl TypeError"
      by (rule error_is_TypeError)
    with parseInt_nonempty [OF p] show ?thesis
      by (simp add: addVertex_sub_def p r t a)
  next
    case (Inr st1)
    from push_spread_tables [OF this] have c: "objColors st1 = objColors st"
      by (simp add: same_tables_def)
    from parseInt_nonempty [OF p] l show ?thesis
      by (simp add: addVertex_sub_def p r t a Inr c e push_spread_None)
  qed
qed

lemma unanswered_fails: "unanswered st i s \<Longrightarrow> addVertex_sub st s i = Inl TypeError"
  by (auto simp: unanswered_def resolves_outside_fails color_missing_fails)

lemma forEach_unanswered:
  assumes "j < length ptn" and "unanswered st (i0 + j) (ptn ! j)"
  shows "forEach_from addVertex_sub st ptn i0 = Inl TypeError"
  using assms
proof (induction ptn arbitrary: st i0 j)
  case Nil
  then show ?case by simp
next
  case (Cons s ptn)
  show ?case
  proof (cases j)
    case 0
    with Cons.prems have "addVertex_sub st s i0 = Inl TypeError"
      by (simp add: unanswered_fails)
    then show ?thesis by simp
  next
    case (Suc j')
    show ?thesis
    proof (cases "addVertex_sub st s i0")
      case (Inl e)
      then have "addVertex_sub st s i0 = Inl TypeError" by (rule error_is_TypeError)
      then show ?thesis by simp
    next
      case (Inr st1)
      from addVertex_sub_tables [OF this] have "same_tables st st1" .
      from unanswered_same [OF this] Cons.prems Suc
      have "unanswered st1 (Suc i0 + j') (ptn ! j')" by simp
      moreover from Cons.prems Suc have "j' < length ptn" by simp
      ultimately have "forEach_from addVertex_sub st1 ptn (Suc i0) = Inl TypeError"
        by (rule Cons.IH [rotated])
      with Inr show ?thesis by simp
    qed
  qed
qed

lemma forEach_tables:
  "forEach_from addVertex_sub st ptn i0 = Inr st' \<Longrightarrow> same_tables st st'"
proof (induction ptn arbitrary: st i0)
  case Nil
  then show ?case by (simp add: same_tables_refl)
next
  case (Cons s ptn)
  then obtain st1 where a: "addVertex_sub st s i0 = Inr st1"
    and r: "forEach_from addVertex_sub st1 ptn (Suc i0) = Inr st'"
    by (auto split: sum.splits)
  from addVertex_sub_tables [OF a] Cons.IH [OF r] show ?case by (rule same_tables_trans)
qed

lemma addVertex_tables: "addVertex st vert = Inr st' \<Longrightarrow> same_tables st st'"
  by (simp add: addVertex_def forEach_tables)

lemma addVertex_unanswered:
  assumes "i < length (split_on (CHR ''/'') vert)"
    and "unanswered st i (split_on (CHR ''/'') vert ! i)"
  shows "addVertex st vert = Inl TypeError"
  using forEach_unanswered [of i "split_on (CHR ''/'') vert" st 0] assms
  by (simp add: addVertex_def)

lemma emit_vertices_unanswered:
  assumes "vert \<in> set vs" and "i < length (split_on (CHR ''/'') vert)"
    and "unanswered st i (split_on (CHR ''/'') vert ! i)"
  shows "emit_vertices st vs = Inl TypeError"
  using assms
proof (induction vs arbitrary: st)
  case Nil
  then show ?case by simp
next
  case (Cons v vs)
  show ?case
  proof (cases "addVertex st v")
    case (Inl e)
    then have "addVertex st v = Inl TypeError" by (rule error_is_TypeError)
    then show ?thesis by simp
  next
    case (Inr st1)
    with addVertex_unanswered [OF Cons.prems(2,3)] have "v \<noteq> vert" by auto
    with Cons.prems have m: "vert \<in> set vs" by simp
    from addVertex_tables [OF Inr] have "same_tables st st1" .
    from unanswered_same [OF this] Cons.prems(3)
    have "unanswered st1 i (split_on (CHR ''/'') vert ! i)" by simp
    from Cons.IH [OF m Cons.prems(2) this] Inr show ?thesis by simp
  qed
qed

lemma fan_covers:
  assumes "3 \<le> length val" and "vert \<in> set val"
  shows "vert \<in> set (concat (map (\<lambda>k. [val ! 0, val ! (k + 1), val ! (k + 2)])
                        [0 ..< length val - 2]))"
proof -
  from assms(2) obtain j where j: "j < length val" and v: "val ! j = vert"
    by (auto simp: in_set_conv_nth)
  define k where "k = j - 2"
  from assms(1) j have kr: "k < length val - 2" by (auto simp: k_def)
  from v have "vert = val ! 0 \<or> vert = val ! (k + 1) \<or> vert = val ! (k + 2)"
  proof (cases "j < 2")
    case True
    then have "j = 0 \<or> j = 1" by auto
    with v show ?thesis by (auto simp: k_def)
  next
    case False
    then have "k + 2 = j" by (simp add: k_def)
    with v show ?thesis by simp
  qed
  with kr show ?thesis by auto
qed

lemma setGeometry_tables: "same_tables st (setGeometry st)"
  by (simp add: setGeometry_def same_tables_def split: option.splits)

lemma kw_f_unanswered:
  assumes "3 \<le> length val" and "vert \<in> set val"
    and "i < length (split_on (CHR ''/'') vert)"
    and "unanswered st i (split_on (CHR ''/'') vert ! i)"
  shows "kw_f st val = Inl TypeError"
proof -
  have "unanswered (setGeometry st) i (split_on (CHR ''/'') vert ! i)
      = unanswered st i (split_on (CHR ''/'') vert ! i)"
    by (rule unanswered_same [OF setGeometry_tables])
  with assms(4) have "unanswered (setGeometry st) i (split_on (CHR ''/'') vert ! i)"
    by (simp only:)
  from emit_vertices_unanswered [OF fan_covers [OF assms(1,2)] assms(3) this]
  show ?thesis by (simp add: kw_f_def f_loop_fan)
qed

lemma get_set_attr:
  "get_attr a (set_attr a v d) = v"
  "b \<noteq> a \<Longrightarrow> get_attr b (set_attr a v d) = get_attr b d"
  by (cases a; cases b; simp)+

lemma push_spread_effect:
  assumes "current_data st = Some d" and "get_attr a d = Some arr"
  shows "\<exists>st' d'. push_spread a (Some e) st = Inr st' \<and> current_data st' = Some d'
           \<and> get_attr a d' = Some (arr @ e) \<and> (\<forall>b. b \<noteq> a \<longrightarrow> get_attr b d' = get_attr b d)
           \<and> same_tables st st'"
proof -
  from assms(1) obtain k where k: "geometry st = Some k" and l: "k < length (geometries st)"
    and d: "d = g_data (geometries st ! k)"
    by (auto simp: current_data_def split: option.splits if_splits)
  let ?g = "(geometries st ! k) \<lparr> g_data := set_attr a (Some (arr @ e)) d \<rparr>"
  let ?st = "st \<lparr> geometries := (geometries st)[k := ?g] \<rparr>"
  from k l d assms(2) have "push_spread a (Some e) st = Inr ?st"
    by (simp add: push_spread_def)
  moreover from k l have "current_data ?st = Some (set_attr a (Some (arr @ e)) d)"
    by (simp add: current_data_def)
  moreover have "same_tables st ?st" by (simp add: same_tables_def)
  ultimately show ?thesis by (simp add: get_set_attr)
qed

lemma zero_sub_index:
  assumes a: "attr_of_slot j = Some a"
    and t: "objVertexData st j = Some (sentinel # rest)"
    and p: "parseInt s = Some 0"
    and d: "current_data st = Some d"
    and g: "get_attr a d = Some arr"
    and c: "color d \<noteq> None"
  shows "\<exists>st' d'. addVertex_sub st s j = Inr st' \<and> current_data st' = Some d'
           \<and> get_attr a d' = Some (arr @ sentinel)"
proof -
  have r: "resolve_index st j (Some 0) = Inr (Some 0)" by (simp add: resolve_index_def)
  have e: "table_entry (sentinel # rest) (Some 0) = Some sentinel" by (simp add: table_entry_def)
  from push_spread_effect [OF d g, of sentinel] obtain st1 d1 where
    p1: "push_spread a (Some sentinel) st = Inr st1" and d1: "current_data st1 = Some d1"
    and g1: "get_attr a d1 = Some (arr @ sentinel)"
    and o1: "\<forall>b. b \<noteq> a \<longrightarrow> get_attr b d1 = get_attr b d"
    and s1: "same_tables st st1"
    by blast
  have m: "addVertex_sub st s j =
      (if j = 0 \<and> 1 < length (objColors st1)
       then push_spread Color (table_entry (objColors st1) (Some 0)) st1 else Inr st1)"
    using parseInt_nonempty [OF p] by (simp add: addVertex_sub_def p r a t e p1)
  show ?thesis
  proof (cases "j = 0 \<and> 1 < length (objColors st1)")
    case False
    with m d1 g1 show ?thesis by auto
  next
    case True
    with a have ap: "a = Position" by (simp add: attr_of_slot_def)
    with o1 c obtain carr where "get_attr Color d1 = Some carr" by auto
    from push_spread_effect [OF d1 this, of "objColors st1 ! 0"] obtain st2 d2 where
      p2: "push_spread Color (Some (objColors st1 ! 0)) st1 = Inr st2"
      and d2: "current_data st2 = Some d2"
      and o2: "\<forall>b. b \<noteq> Color \<longrightarrow> get_attr b d2 = get_attr b d1"
      by blast
    from True have "objColors st1 \<noteq> []" by auto
    then have "table_entry (objColors st1) (Some 0) = Some (objColors st1 ! 0)"
      by (simp add: table_entry_def)
    with m True p2 have "addVertex_sub st s j = Inr st2" by simp
    moreover from o2 have "get_attr Position d2 = get_attr Position d1" by blast
    with ap g1 have "get_attr a d2 = Some (arr @ sentinel)" by simp
    ultimately show ?thesis using d2 by blast
  qed
qed

subsection \<open>Component widths\<close>

lemma data_ok_push:
  assumes "data_ok d" and "get_attr a d = Some arr" and "length e = width a"
  shows "data_ok (set_attr a (Some (arr @ e)) d)"
  using assms by (cases a) (simp_all add: data_ok_def array_ok_def)

lemma list_all_update:
  assumes "list_all P xs" and "P x"
  shows "list_all P (xs[k := x])"
proof -
  have "set (xs[k := x]) \<subseteq> insert x (set xs)" by (rule set_update_subset_insert)
  with assms show ?thesis by (auto simp: list_all_iff)
qed

lemma tables_ok_same: "same_tables st st' \<Longrightarrow> tables_ok st' = tables_ok st"
  by (simp add: same_tables_def tables_ok_def)

lemma push_spread_Inr:
  assumes "push_spread a e st = Inr st'"
  shows "\<exists>k arr x. geometry st = Some k \<and> k < length (geometries st)
           \<and> get_attr a (g_data (geometries st ! k)) = Some arr \<and> e = Some x
           \<and> st' = st \<lparr> geometries := (geometries st)
                  [k := (geometries st ! k)
                     \<lparr> g_data := set_attr a (Some (arr @ x)) (g_data (geometries st ! k)) \<rparr>] \<rparr>"
proof (cases "geometry st")
  case None
  with assms show ?thesis by (simp add: push_spread_def)
next
  case (Some k)
  show ?thesis
  proof (cases "length (geometries st) \<le> k")
    case True
    with assms Some show ?thesis by (simp add: push_spread_def)
  next
    case False
    show ?thesis
    proof (cases "get_attr a (g_data (geometries st ! k))")
      case None
      with assms Some False show ?thesis by (simp add: push_spread_def)
    next
      case arr: (Some arr)
      show ?thesis
      proof (cases e)
        case None
        with assms Some False arr show ?thesis by (simp add: push_spread_def)
      next
        case x: (Some x)
        with assms Some False arr
        have "st' = st \<lparr> geometries := (geometries st)
                  [k := (geometries st ! k)
                     \<lparr> g_data := set_attr a (Some (arr @ x)) (g_data (geometries st ! k)) \<rparr>] \<rparr>"
          by (simp add: push_spread_def)
        moreover from False have "k < length (geometries st)" by simp
        ultimately show ?thesis using Some arr x
          by (intro exI [of _ k] exI [of _ arr] exI [of _ x]) simp
      qed
    qed
  qed
qed

lemma push_spread_ok:
  assumes w: "widths_ok st" and e: "\<And>x. e = Some x \<Longrightarrow> length x = width a"
    and p: "push_spread a e st = Inr st'"
  shows "widths_ok st'"
proof -
  from push_spread_Inr [OF p] obtain k arr x where k: "k < length (geometries st)"
    and g: "get_attr a (g_data (geometries st ! k)) = Some arr" and x: "e = Some x"
    and s: "st' = st \<lparr> geometries := (geometries st)
              [k := (geometries st ! k)
                 \<lparr> g_data := set_attr a (Some (arr @ x)) (g_data (geometries st ! k)) \<rparr>] \<rparr>"
    by blast
  from w have a: "list_all (\<lambda>g. data_ok (g_data g)) (geometries st)"
    by (simp add: widths_ok_def)
  with k have "data_ok (g_data (geometries st ! k))" by (simp add: list_all_length)
  from data_ok_push [OF this g e [OF x]]
  have "data_ok (g_data ((geometries st ! k)
      \<lparr> g_data := set_attr a (Some (arr @ x)) (g_data (geometries st ! k)) \<rparr>))"
    by simp
  from list_all_update [of "\<lambda>g. data_ok (g_data g)", OF a this]
  have "list_all (\<lambda>g. data_ok (g_data g)) (geometries st')" by (simp add: s)
  moreover from push_spread_tables [OF p] w have "tables_ok st'"
    by (simp add: tables_ok_same widths_ok_def)
  ultimately show ?thesis by (simp add: widths_ok_def)
qed

lemma table_entry_width:
  assumes "tuples_of a tbl" and "table_entry tbl idx = Some x"
  shows "length x = width a"
proof -
  from assms(2) have "x \<in> set tbl"
    by (auto simp: table_entry_def split: option.splits if_splits)
  with assms(1) show ?thesis by (simp add: tuples_of_def list_all_iff)
qed

lemma slot_table_ok:
  assumes "tables_ok st" and "attr_of_slot i = Some a" and "objVertexData st i = Some tbl"
  shows "tuples_of a tbl"
  using assms
  by (auto simp: tables_ok_def attr_of_slot_def objVertexData_def split: if_splits)

lemma addVertex_sub_ok:
  assumes w: "widths_ok st" and r: "addVertex_sub st s i = Inr st'"
  shows "widths_ok st'"
proof (cases "s = []")
  case True
  with r w show ?thesis by (simp add: addVertex_sub_def)
next
  case False
  define mid where "mid index =
      (case (attr_of_slot i, objVertexData st i) of
         (Some a, Some tbl) \<Rightarrow> push_spread a (table_entry tbl index) st
       | _ \<Rightarrow> Inr st)" for index
  from r False obtain index st1 where m: "mid index = Inr st1"
    and f: "(if i = 0 \<and> 1 < length (objColors st1)
             then push_spread Color (table_entry (objColors st1) index) st1
             else Inr st1) = Inr st'"
    by (auto simp: addVertex_sub_def mid_def split: sum.splits)
  have w1: "widths_ok st1"
  proof (cases "attr_of_slot i")
    case None
    with m w show ?thesis by (simp add: mid_def)
  next
    case (Some a)
    show ?thesis
    proof (cases "objVertexData st i")
      case None
      with m w Some show ?thesis by (simp add: mid_def)
    next
      case (Some tbl)
      with m \<open>attr_of_slot i = Some a\<close>
      have p: "push_spread a (table_entry tbl index) st = Inr st1" by (simp add: mid_def)
      from w have "tables_ok st" by (simp add: widths_ok_def)
      from slot_table_ok [OF this \<open>attr_of_slot i = Some a\<close> Some]
      have "tuples_of a tbl" .
      from push_spread_ok [OF w table_entry_width [OF this] p] show ?thesis .
    qed
  qed
  show ?thesis
  proof (cases "i = 0 \<and> 1 < length (objColors st1)")
    case False
    with f w1 show ?thesis by auto
  next
    case True
    with f have p: "push_spread Color (table_entry (objColors st1) index) st1 = Inr st'"
      by simp
    from w1 have "tuples_of Color (objColors st1)" by (simp add: widths_ok_def tables_ok_def)
    from push_spread_ok [OF w1 table_entry_width [OF this] p] show ?thesis .
  qed
qed

lemma forEach_ok:
  "widths_ok st \<Longrightarrow> forEach_from addVertex_sub st ptn i0 = Inr st' \<Longrightarrow> widths_ok st'"
proof (induction ptn arbitrary: st i0)
  case Nil
  then show ?case by simp
next
  case (Cons s ptn)
  from Cons.prems(2) obtain st1 where a: "addVertex_sub st s i0 = Inr st1"
    and r: "forEach_from addVertex_sub st1 ptn (Suc i0) = Inr st'"
    by (auto split: sum.splits)
  from Cons.IH [OF addVertex_sub_ok [OF Cons.prems(1) a] r] show ?case .
qed

lemma emit_vertices_ok:
  "widths_ok st \<Longrightarrow> emit_vertices st vs = Inr st' \<Longrightarrow> widths_ok st'"
proof (induction vs arbitrary: st)
  case Nil
  then show ?case by simp
next
  case (Cons v vs)
  from Cons.prems(2) obtain st1 where a: "addVertex st v = Inr st1"
    and r: "emit_vertices st1 vs = Inr st'"
    by (auto split: sum.splits)
  from a have "forEach_from addVertex_sub st (split_on (CHR ''/'') v) 0 = Inr st1"
    by (simp add: addVertex_def)
  from Cons.IH [OF forEach_ok [OF Cons.prems(1) this] r] show ?case .
qed

lemma widths_ok_same:
  "same_tables st st' \<Longrightarrow> geometries st' = geometries st \<Longrightarrow> widths_ok st' = widths_ok st"
  by (simp add: widths_ok_def tables_ok_same)

lemma setGeometry_ok: "widths_ok st \<Longrightarrow> widths_ok (setGeometry st)"
  by (auto simp: setGeometry_def widths_ok_def tables_ok_def data_ok_def array_ok_def
      split: option.splits)

lemma kw_f_ok:
  assumes "widths_ok st" and "kw_f st val = Inr st'"
  shows "widths_ok st'"
proof -
  from assms(2) have "emit_vertices (setGeometry st)
      (concat (map (\<lambda>k. [val ! 0, val ! (k + 1), val ! (k + 2)]) [0 ..< length val - 2]))
      = Inr st'"
    by (simp add: kw_f_def f_loop_fan)
  from emit_vertices_ok [OF setGeometry_ok [OF assms(1)] this] show ?thesis .
qed

lemma newGeometry_ok:
  assumes "widths_ok st" and "newGeometry st = Inr st'"
  shows "widths_ok st'"
proof -
  from assms(2) have "st' = st \<or> st' = st \<lparr> geometry := None \<rparr>"
    by (auto simp: newGeometry_def split: option.splits if_splits)
  with assms(1) show ?thesis by (auto simp: widths_ok_def tables_ok_def)
qed

lemma kw_v_ok:
  assumes "widths_ok st" and "length val = 3 \<or> length val = 6"
  shows "widths_ok (kw_v pf st val)"
  using assms by (auto simp: kw_v_def widths_ok_def tables_ok_def tuples_of_def)

lemma kw_vn_ok: "widths_ok st \<Longrightarrow> length val = 3 \<Longrightarrow> widths_ok (kw_vn pf st val)"
  by (simp add: kw_vn_def widths_ok_def tables_ok_def tuples_of_def)

lemma kw_vt_ok: "widths_ok st \<Longrightarrow> length val = 2 \<Longrightarrow> widths_ok (kw_vt pf st val)"
  by (simp add: kw_vt_def widths_ok_def tables_ok_def tuples_of_def)

lemma keywords_obj_table:
  assumes "keywords_obj k = Some (Handler h)"
  shows "(h = H_v \<longrightarrow> k = ''v'') \<and> (h = H_vn \<longrightarrow> k = ''vn'') \<and> (h = H_vt \<longrightarrow> k = ''vt'')"
  using assms
  by (simp add: keywords_obj_def Object_prototype_no_handler split: if_splits)

lemma call_handler_ok:
  assumes w: "widths_ok st" and l: "line_widths_ok l"
    and k: "keywords_obj (regex_keyword (trim l)) = Some (Handler h)"
    and c: "call_handler pf h st (drop 1 (split_ws (trim l))) raw = Inr st'"
  shows "widths_ok st'"
proof (cases h)
  case H_v
  with keywords_obj_table [OF k] l
  have "length (drop 1 (split_ws (trim l))) = 3 \<or> length (drop 1 (split_ws (trim l))) = 6"
    by (simp add: line_widths_ok_def Let_def)
  from kw_v_ok [OF w this] c H_v show ?thesis by auto
next
  case H_vn
  with keywords_obj_table [OF k] l
  have "length (drop 1 (split_ws (trim l))) = 3"
    by (simp add: line_widths_ok_def Let_def)
  from kw_vn_ok [OF w this] c H_vn show ?thesis by auto
next
  case H_vt
  with keywords_obj_table [OF k] l
  have "length (drop 1 (split_ws (trim l))) = 2"
    by (simp add: line_widths_ok_def Let_def)
  from kw_vt_ok [OF w this] c H_vt show ?thesis by auto
next
  case H_f
  with c kw_f_ok [OF w] show ?thesis by simp
next
  case H_s
  with c w show ?thesis by simp
next
  case H_mtllib
  with c w show ?thesis by (auto simp: kw_mtllib_def widths_ok_def tables_ok_def)
next
  case H_usemtl
  have "widths_ok (st \<lparr> material := first_of (drop 1 (split_ws (trim l))) \<rparr>)"
    using w by (simp add: widths_ok_def tables_ok_def)
  from newGeometry_ok [OF this] c H_usemtl show ?thesis by (simp add: kw_usemtl_def)
next
  case H_g
  have "widths_ok (st \<lparr> groups := drop 1 (split_ws (trim l)) \<rparr>)"
    using w by (simp add: widths_ok_def tables_ok_def)
  from newGeometry_ok [OF this] c H_g show ?thesis by (simp add: kw_g_def)
next
  case H_o
  have "widths_ok (st \<lparr> object := first_of (drop 1 (split_ws (trim l))) \<rparr>)"
    using w by (simp add: widths_ok_def tables_ok_def)
  from newGeometry_ok [OF this] c H_o show ?thesis by (simp add: kw_o_def)
qed

lemma process_line_ok:
  assumes w: "widths_ok st" and l: "line_widths_ok l" and p: "process_line pf st l = Inr st'"
  shows "widths_ok st'"
proof (cases "keywords_obj (regex_keyword (trim l))")
  case None
  with p w show ?thesis by (simp add: unknown_keyword_skipped)
next
  case (Some pr)
  show ?thesis
  proof (cases pr)
    case (Handler h)
    with Some have k: "keywords_obj (regex_keyword (trim l)) = Some (Handler h)" by simp
    from process_line_handler [OF k, of pf st] p
    have "call_handler pf h st (drop 1 (split_ws (trim l))) (regex_RawArguments (trim l)) = Inr st'"
      by simp
    from call_handler_ok [OF w l k this] show ?thesis .
  next
    case Returns
    with Some p w show ?thesis by (auto simp: process_line_def Let_def split: if_splits)
  next
    case Raises
    with Some p w show ?thesis by (auto simp: process_line_def Let_def split: if_splits)
  qed
qed

lemma run_lines_ok:
  assumes "widths_ok st" and "\<forall>l \<in> set ls. line_widths_ok l"
    and "forEach_from (\<lambda>s l i. process_line pf s l) st ls i = Inr st'"
  shows "widths_ok st'"
  using assms
proof (induction ls arbitrary: st i)
  case Nil
  then show ?case by simp
next
  case (Cons l ls)
  from Cons.prems(3) obtain st1 where a: "process_line pf st l = Inr st1"
    and r: "forEach_from (\<lambda>s l i. process_line pf s l) st1 ls (Suc i) = Inr st'"
    by (auto split: sum.splits)
  from Cons.prems(2) have "line_widths_ok l" and ls: "\<forall>l \<in> set ls. line_widths_ok l" by simp_all
  from process_line_ok [OF Cons.prems(1) this(1) a] have "widths_ok st1" .
  from Cons.IH [OF this ls r] show ?case .
qed

lemma cleanup_ok: "data_ok (g_data g) \<Longrightarrow> data_ok (g_data (cleanup g))"
  by (simp add: data_ok_def array_ok_def get_attr_cleanup delete_if_empty_def
      split: option.splits)

subsection \<open>The arrays of the current geometry along a parse\<close>

lemma push_spread_present:
  assumes "arrays_present st" and "push_spread b e st = Inr st'"
  shows "arrays_present st'"
proof -
  from push_spread_Inr [OF assms(2)] obtain k arr x where k: "geometry st = Some k"
    and l: "k < length (geometries st)"
    and s: "st' = st \<lparr> geometries := (geometries st)
              [k := (geometries st ! k)
                 \<lparr> g_data := set_attr b (Some (arr @ x)) (g_data (geometries st ! k)) \<rparr>] \<rparr>"
    by blast
  from assms(1) k l show ?thesis
    by (cases b) (simp_all add: arrays_present_def s split: option.splits)
qed

lemma addVertex_sub_pushes:
  assumes push: "\<And>b e s s'. P s \<Longrightarrow> push_spread b e s = Inr s' \<Longrightarrow> P s'"
    and p: "P st" and r: "addVertex_sub st s i = Inr st'"
  shows "P st'"
proof (cases "s = []")
  case True
  with r p show ?thesis by (simp add: addVertex_sub_def)
next
  case False
  define mid where "mid index =
      (case (attr_of_slot i, objVertexData st i) of
         (Some a, Some tbl) \<Rightarrow> push_spread a (table_entry tbl index) st
       | _ \<Rightarrow> Inr st)" for index
  from r False obtain index st1 where m: "mid index = Inr st1"
    and f: "(if i = 0 \<and> 1 < length (objColors st1)
             then push_spread Color (table_entry (objColors st1) index) st1
             else Inr st1) = Inr st'"
    by (auto simp: addVertex_sub_def mid_def split: sum.splits)
  from m p have "P st1"
    by (auto simp: mid_def split: option.splits dest: push)
  with f show ?thesis
    by (auto split: if_splits dest: push)
qed

lemma forEach_pushes:
  assumes push: "\<And>b e s s'. P s \<Longrightarrow> push_spread b e s = Inr s' \<Longrightarrow> P s'"
  shows "P st \<Longrightarrow> forEach_from addVertex_sub st ptn i0 = Inr st' \<Longrightarrow> P st'"
proof (induction ptn arbitrary: st i0)
  case Nil
  then show ?case by simp
next
  case (Cons s ptn)
  from Cons.prems(2) obtain st1 where a: "addVertex_sub st s i0 = Inr st1"
    and r: "forEach_from addVertex_sub st1 ptn (Suc i0) = Inr st'"
    by (auto split: sum.splits)
  from addVertex_sub_pushes [of P, OF push Cons.prems(1) a] have "P st1" .
  from Cons.IH [OF this r] show ?case .
qed

lemma emit_vertices_pushes:
  assumes push: "\<And>b e s s'. P s \<Longrightarrow> push_spread b e s = Inr s' \<Longrightarrow> P s'"
  shows "P st \<Longrightarrow> emit_vertices st vs = Inr st' \<Longrightarrow> P st'"
proof (induction vs arbitrary: st)
  case Nil
  then show ?case by simp
next
  case (Cons v vs)
  from Cons.prems(2) obtain st1 where a: "addVertex st v = Inr st1"
    and r: "emit_vertices st1 vs = Inr st'"
    by (auto split: sum.splits)
  from a have "forEach_from addVertex_sub st (split_on (CHR ''/'') v) 0 = Inr st1"
    by (simp add: addVertex_def)
  from forEach_pushes [of P, OF push Cons.prems(1) this] have "P st1" .
  from Cons.IH [OF this r] show ?case .
qed

lemma setGeometry_present: "arrays_present st \<Longrightarrow> arrays_present (setGeometry st)"
  by (auto simp: setGeometry_def arrays_present_def split: option.splits)

lemma kw_f_present:
  assumes "arrays_present st" and "kw_f st val = Inr st'"
  shows "arrays_present st'"
proof -
  from assms(2) have "emit_vertices (setGeometry st)
      (concat (map (\<lambda>k. [val ! 0, val ! (k + 1), val ! (k + 2)]) [0 ..< length val - 2]))
      = Inr st'"
    by (simp add: kw_f_def f_loop_fan)
  from emit_vertices_pushes [of arrays_present, OF push_spread_present
      setGeometry_present [OF assms(1)] this]
  show ?thesis .
qed

lemma newGeometry_present:
  assumes "arrays_present st" and "newGeometry st = Inr st'"
  shows "arrays_present st'"
proof -
  from assms(2) have "st' = st \<or> st' = st \<lparr> geometry := None \<rparr>"
    by (auto simp: newGeometry_def split: option.splits if_splits)
  with assms(1) show ?thesis by (auto simp: arrays_present_def split: option.splits)
qed

lemma arrays_present_cong:
  "geometries st' = geometries st \<Longrightarrow> geometry st' = geometry st \<Longrightarrow>
     arrays_present st' = arrays_present st"
  by (simp add: arrays_present_def split: option.splits)

lemma call_handler_present:
  assumes w: "arrays_present st" and c: "call_handler pf h st val raw = Inr st'"
  shows "arrays_present st'"
proof (cases h)
  case H_v
  have "geometries (kw_v pf st val) = geometries st" "geometry (kw_v pf st val) = geometry st"
    by (simp_all add: kw_v_def)
  from arrays_present_cong [OF this] c w H_v show ?thesis by auto
next
  case H_vn
  have "geometries (kw_vn pf st val) = geometries st" "geometry (kw_vn pf st val) = geometry st"
    by (simp_all add: kw_vn_def)
  from arrays_present_cong [OF this] c w H_vn show ?thesis by auto
next
  case H_vt
  have "geometries (kw_vt pf st val) = geometries st" "geometry (kw_vt pf st val) = geometry st"
    by (simp_all add: kw_vt_def)
  from arrays_present_cong [OF this] c w H_vt show ?thesis by auto
next
  case H_f
  with c kw_f_present [OF w] show ?thesis by simp
next
  case H_s
  with c w show ?thesis by simp
next
  case H_mtllib
  have "geometries (kw_mtllib st raw) = geometries st" "geometry (kw_mtllib st raw) = geometry st"
    by (simp_all add: kw_mtllib_def)
  from arrays_present_cong [OF this] c w H_mtllib show ?thesis by auto
next
  case H_usemtl
  have "arrays_present (st \<lparr> material := first_of val \<rparr>) = arrays_present st"
    by (rule arrays_present_cong) simp_all
  with w have "arrays_present (st \<lparr> material := first_of val \<rparr>)" by simp
  from newGeometry_present [OF this] c H_usemtl show ?thesis by (simp add: kw_usemtl_def)
next
  case H_g
  have "arrays_present (st \<lparr> groups := val \<rparr>) = arrays_present st"
    by (rule arrays_present_cong) simp_all
  with w have "arrays_present (st \<lparr> groups := val \<rparr>)" by simp
  from newGeometry_present [OF this] c H_g show ?thesis by (simp add: kw_g_def)
next
  case H_o
  have "arrays_present (st \<lparr> object := first_of val \<rparr>) = arrays_present st"
    by (rule arrays_present_cong) simp_all
  with w have "arrays_present (st \<lparr> object := first_of val \<rparr>)" by simp
  from newGeometry_present [OF this] c H_o show ?thesis by (simp add: kw_o_def)
qed

lemma process_line_present:
  assumes w: "arrays_present st" and p: "process_line pf st l = Inr st'"
  shows "arrays_present st'"
proof (cases "keywords_obj (regex_keyword (trim l))")
  case None
  with p w show ?thesis by (simp add: unknown_keyword_skipped)
next
  case (Some pr)
  show ?thesis
  proof (cases pr)
    case (Handler h)
    with Some have k: "keywords_obj (regex_keyword (trim l)) = Some (Handler h)" by simp
    from process_line_handler [OF k, of pf st] p
    have "call_handler pf h st (drop 1 (split_ws (trim l))) (regex_RawArguments (trim l)) = Inr st'"
      by simp
    from call_handler_present [OF w this] show ?thesis .
  next
    case Returns
    with Some p w show ?thesis by (auto simp: process_line_def Let_def split: if_splits)
  next
    case Raises
    with Some p w show ?thesis by (auto simp: process_line_def Let_def split: if_splits)
  qed
qed

lemma forEach_lines_present:
  assumes "arrays_present st"
    and "forEach_from (\<lambda>s l i. process_line pf s l) st ls i = Inr st'"
  shows "arrays_present st'"
  using assms
proof (induction ls arbitrary: st i)
  case Nil
  then show ?case by simp
next
  case (Cons l ls)
  from Cons.prems(2) obtain st1 where a: "process_line pf st l = Inr st1"
    and r: "forEach_from (\<lambda>s l i. process_line pf s l) st1 ls (Suc i) = Inr st'"
    by (auto split: sum.splits)
  from Cons.IH [OF process_line_present [OF Cons.prems(1) a] r] show ?case .
qed

lemma run_lines_present:
  "arrays_present st \<Longrightarrow> run_lines pf st ls = Inr st' \<Longrightarrow> arrays_present st'"
  by (simp add: run_lines_def forEach_lines_present)

lemma arrays_present_position: "arrays_present st \<Longrightarrow> position_present st"
  by (auto simp: arrays_present_def position_present_def current_data_def split: option.splits)

lemma arrays_present_data:
  assumes "arrays_present st"
  shows "\<exists>d. current_data (setGeometry st) = Some d \<and> position d \<noteq> None \<and> texcoord d \<noteq> None
           \<and> normal d \<noteq> None \<and> color d \<noteq> None"
  using assms
  by (auto simp: arrays_present_def setGeometry_def current_data_def split: option.splits)

subsection \<open>Faces and the tables\<close>

lemma short_face: "length val < 3 \<Longrightarrow> kw_f st val = Inr (setGeometry st)"
  by (simp add: kw_f_def f_loop_fan)

text \<open>
  C10, as amended: \<^verbatim>\<open>ParseObjFile\<close> raises a TypeError instead of returning when an
  \<^verbatim>\<open>f\<close> line with at least three vertex references holds, at one of the four slots,
  a sub-index that is positive and greater than the number of declared entries of its
  table, or negative with a magnitude greater than the length of the table's array
  (sentinel included), or a position sub-index that has no color entry while the color
  table holds more than its sentinel. The state \<open>st\<close> is the one in which the line is read.
  An \<^verbatim>\<open>f\<close> line with fewer than three vertex references reads none of its sub-indices:
  it returns, and all it does is to provide the current geometry. A sub-index 0 does not
  raise: it appends the sentinel of its table to the array of its slot, when the current
  geometry has its arrays; and it has them at every face line of a parse that starts
  from a state in which the current geometry has its arrays, as the initial state is.
\<close>

theorem face_index_outside_tables:
  assumes "split_on (CHR 0x0A) text = pre @ l # post"
    and "run_lines pf st0 pre = Inr st"
    and "regex_keyword (trim l) = ''f''"
    and "val = drop 1 (split_ws (trim l))"
    and "3 \<le> length val"
    and "vert \<in> set val"
    and "i < length (split_on (CHR ''/'') vert)"
    and "unanswered st i (split_on (CHR ''/'') vert ! i)"
  shows "process_line pf st l = Inl TypeError
       \<and> ParseObjFile pf st0 text = Inl TypeError
       \<and> (attr_of_slot j = Some a \<longrightarrow> objVertexData st2 j = Some (sentinel # rest) \<longrightarrow>
            parseInt s = Some 0 \<longrightarrow> current_data st2 = Some d \<longrightarrow> get_attr a d = Some arr \<longrightarrow>
            color d \<noteq> None \<longrightarrow>
            (\<exists>st' d'. addVertex_sub st2 s j = Inr st' \<and> current_data st' = Some d'
               \<and> get_attr a d' = Some (arr @ sentinel)))
       \<and> (regex_keyword (trim l3) = ''f'' \<longrightarrow> length (drop 1 (split_ws (trim l3))) < 3 \<longrightarrow>
            process_line pf st3 l3 = Inr (setGeometry st3))
       \<and> (arrays_present st4 \<longrightarrow> run_lines pf st4 pre4 = Inr st5 \<longrightarrow>
            (\<exists>d. current_data (setGeometry st5) = Some d \<and> position d \<noteq> None
               \<and> texcoord d \<noteq> None \<and> normal d \<noteq> None \<and> color d \<noteq> None))"
proof -
  have "keywords_obj (regex_keyword (trim l)) = Some (Handler H_f)"
    by (simp add: assms(3) keywords_obj_def)
  from process_line_handler [OF this]
  have "process_line pf st l = kw_f st val" by (simp add: assms(4))
  with kw_f_unanswered [OF assms(5-8)]
  have l: "process_line pf st l = Inl TypeError" by simp
  from assms(2) have "forEach_from (\<lambda>s l i. process_line pf s l) st0 pre 0 = Inr st"
    by (simp add: run_lines_def)
  with l have "run_lines pf st0 (pre @ l # post) = Inl TypeError"
    by (simp add: run_lines_def forEach_from_append)
  then have p: "ParseObjFile pf st0 text = Inl TypeError"
    by (simp add: ParseObjFile_def assms(1))
  have s: "process_line pf st3 l3 = Inr (setGeometry st3)"
    if "regex_keyword (trim l3) = ''f''" and "length (drop 1 (split_ws (trim l3))) < 3"
  proof -
    from that(1) have "keywords_obj (regex_keyword (trim l3)) = Some (Handler H_f)"
      by (simp add: keywords_obj_def)
    from process_line_handler [OF this, of pf st3] short_face [OF that(2)]
    show ?thesis by simp
  qed
  have q: "\<exists>d. current_data (setGeometry st5) = Some d \<and> position d \<noteq> None
               \<and> texcoord d \<noteq> None \<and> normal d \<noteq> None \<and> color d \<noteq> None"
    if "arrays_present st4" and "run_lines pf st4 pre4 = Inr st5"
    by (rule arrays_present_data [OF run_lines_present [OF that]])
  from l p s q zero_sub_index [of j a st2 sentinel rest s d arr] show ?thesis by blast
qed

theorem face_index_outside_tables_witness:
  "ParseObjFile parseFloat_digits init_state
     (''v 0 0 0'' @ NL @ ''v 1 0 0'' @ NL @ ''v 0 1 0'' @ NL @ ''f 1 2 4'') = Inl TypeError
   \<and> (\<exists>st' d'. addVertex_sub (setGeometry (init_state :: int obj_state)) ''0'' 0 = Inr st'
         \<and> current_data st' = Some d' \<and> position d' = Some [0, 0, 0])
   \<and> process_line parseFloat_digits init_state ''f 5 6'' = Inr (setGeometry init_state)
   \<and> (\<exists>d. current_data (setGeometry
              (init_state \<lparr> objPositions := [[0, 0, 0], [0, 0, 0], [1, 0, 0], [0, 1, 0 :: int]] \<rparr>))
            = Some d \<and> position d \<noteq> None \<and> texcoord d \<noteq> None \<and> normal d \<noteq> None
          \<and> color d \<noteq> None)"
proof -
  let ?st = "init_state \<lparr> objPositions := [[0, 0, 0], [0, 0, 0], [1, 0, 0], [0, 1, 0 :: int]] \<rparr>"
  let ?d = "\<lparr> position = Some [], texcoord = Some [], normal = Some [],
              color = Some ([] :: int list) \<rparr>"
  have 1: "split_on (CHR 0x0A) (''v 0 0 0'' @ NL @ ''v 1 0 0'' @ NL @ ''v 0 1 0'' @ NL @ ''f 1 2 4'')
             = [''v 0 0 0'', ''v 1 0 0'', ''v 0 1 0''] @ ''f 1 2 4'' # []"
    by code_simp
  have 2: "run_lines parseFloat_digits init_state [''v 0 0 0'', ''v 1 0 0'', ''v 0 1 0''] = Inr ?st"
    by code_simp
  have 3: "regex_keyword (trim ''f 1 2 4'') = ''f''" by code_simp
  have 4: "[''1'', ''2'', ''4''] = drop 1 (split_ws (trim ''f 1 2 4''))" by code_simp
  have 5: "3 \<le> length [''1'', ''2'', ''4'']" by simp
  have 6: "''4'' \<in> set [''1'', ''2'', ''4'']" by simp
  have 7: "0 < length (split_on (CHR ''/'') ''4'')" by code_simp
  have 8: "unanswered ?st 0 (split_on (CHR ''/'') ''4'' ! 0)" by code_simp
  have a: "attr_of_slot 0 = Some Position" by code_simp
  have b: "objVertexData (setGeometry (init_state :: int obj_state)) 0 = Some ([0, 0, 0] # [])"
    by code_simp
  have c: "parseInt ''0'' = Some 0" by code_simp
  have d: "current_data (setGeometry (init_state :: int obj_state)) = Some ?d" by code_simp
  have e: "get_attr Position ?d = Some []" by simp
  have f: "color ?d \<noteq> None" by simp
  have g: "regex_keyword (trim ''f 5 6'') = ''f''" by code_simp
  have h: "length (drop 1 (split_ws (trim ''f 5 6''))) < 3" by code_simp
  have i: "arrays_present (init_state :: int obj_state)" by code_simp
  from face_index_outside_tables [OF 1 2 3 4 5 6 7 8,
      of 0 Position "setGeometry init_state" "[0, 0, 0]" "[]" "''0''" ?d "[]" "''f 5 6''"
         init_state init_state "[''v 0 0 0'', ''v 1 0 0'', ''v 0 1 0'']" ?st]
    a b c d e f g h i 2
  show ?thesis by simp
qed

theorem face_index_two_references_counterexample:
  "resolves_outside (init_state :: int obj_state) 0 ''5''
   \<and> ParseObjFile parseFloat_digits init_state ''f 5 6''
     = Inr (\<lparr> res_geometries =
               [\<lparr> g_object = Some ''default'', g_groups = [''default''],
                  g_material = Some ''default'',
                  g_data = \<lparr> position = None, texcoord = None, normal = None, color = None \<rparr> \<rparr>],
             res_materialLibs = [] \<rparr>,
           snd (projr (ParseObjFile parseFloat_digits init_state ''f 5 6'')))
   \<and> (case ParseObjFile parseFloat_digits init_state ''f'' of
         Inl e \<Rightarrow> False
       | Inr (res, st) \<Rightarrow>
           \<not> arrays_present st
         \<and> ParseObjFile parseFloat_digits st ''f 0 0 0'' = Inl TypeError)"
  by code_simp

subsection \<open>The state-change gate at work\<close>

lemma state_line_newGeometry:
  assumes "state_line l"
  shows "\<exists>s. process_line pf st l = newGeometry s \<and> geometries s = geometries st
           \<and> geometry s = geometry st"
proof -
  from assms consider "regex_keyword (trim l) = ''usemtl''" | "regex_keyword (trim l) = ''g''"
    | "regex_keyword (trim l) = ''o''"
    by (auto simp: state_line_def)
  then show ?thesis
  proof cases
    case 1
    then have "keywords_obj (regex_keyword (trim l)) = Some (Handler H_usemtl)"
      by (simp add: keywords_obj_def)
    from process_line_handler [OF this, of pf st]
    have "process_line pf st l =
        newGeometry (st \<lparr> material := first_of (drop 1 (split_ws (trim l))) \<rparr>)"
      by (simp add: kw_usemtl_def)
    then show ?thesis
      by (intro exI [of _ "st \<lparr> material := first_of (drop 1 (split_ws (trim l))) \<rparr>"]) simp
  next
    case 2
    then have "keywords_obj (regex_keyword (trim l)) = Some (Handler H_g)"
      by (simp add: keywords_obj_def)
    from process_line_handler [OF this, of pf st]
    have "process_line pf st l = newGeometry (st \<lparr> groups := drop 1 (split_ws (trim l)) \<rparr>)"
      by (simp add: kw_g_def)
    then show ?thesis
      by (intro exI [of _ "st \<lparr> groups := drop 1 (split_ws (trim l)) \<rparr>"]) simp
  next
    case 3
    then have "keywords_obj (regex_keyword (trim l)) = Some (Handler H_o)"
      by (simp add: keywords_obj_def)
    from process_line_handler [OF this, of pf st]
    have "process_line pf st l =
        newGeometry (st \<lparr> object := first_of (drop 1 (split_ws (trim l))) \<rparr>)"
      by (simp add: kw_o_def)
    then show ?thesis
      by (intro exI [of _ "st \<lparr> object := first_of (drop 1 (split_ws (trim l))) \<rparr>"]) simp
  qed
qed

lemma state_line_raises:
  assumes "state_line l" and "\<not> position_present st"
  shows "process_line pf st l = Inl TypeError"
proof -
  from state_line_newGeometry [OF assms(1), of pf st] obtain s where
    p: "process_line pf st l = newGeometry s" and g: "geometries s = geometries st"
    and c: "geometry s = geometry st"
    by blast
  from assms(2) obtain d where "current_data st = Some d" and "position d = None"
    by (auto simp: position_present_def split: option.splits)
  with current_data_cong [OF g c] have "newGeometry s = Inl TypeError"
    by (simp add: newGeometry_def)
  with p show ?thesis by simp
qed

lemma setGeometry_after:
  assumes "geometries st' = geometries st"
  shows "geometries (setGeometry st') =
      (if geometry st' = None
       then geometries st @
         [\<lparr> g_object = object st', g_groups = groups st', g_material = material st',
            g_data = \<lparr> position = Some [], texcoord = Some [], normal = Some [],
                       color = Some [] \<rparr> \<rparr>]
       else geometries st)"
  using assms by (auto simp: setGeometry_def)

text \<open>
  C3: lines with the keywords \<^verbatim>\<open>usemtl\<close>, \<^verbatim>\<open>g\<close> and \<^verbatim>\<open>o\<close> that follow one
  another produce no geometry: from every state, when they return, the list of geometries
  is as it was, and the reference to the current geometry has been dropped exactly when
  that geometry held at least one emitted position; otherwise the geometry stays current,
  and the face that follows adds none. Such lines raise only on a current geometry whose
  position array an earlier parse has deleted, never within a parse that starts from a
  state in which the current geometry has its arrays, as the initial state is. In
  particular \<^verbatim>\<open>o A\<close>, \<^verbatim>\<open>g g1\<close>, \<^verbatim>\<open>f 1 2 3\<close> after three \<^verbatim>\<open>v\<close> lines gives
  exactly one geometry, with object \<^verbatim>\<open>A\<close> and groups \<^verbatim>\<open>["g1"]\<close>; after a face
  with positions, three such lines and another face give two geometries; after a face
  without triangles, which leaves an empty geometry, they and a face give one.
\<close>

theorem state_change_gate:
  assumes "\<forall>l \<in> set ls. state_line l"
  shows "(case run_lines pf st ls of
            Inl e \<Rightarrow> ls \<noteq> [] \<and> \<not> position_present st
          | Inr st' \<Rightarrow>
              geometries st' = geometries st
            \<and> geometry st' = (if holds_position st \<and> ls \<noteq> [] then None else geometry st)
            \<and> geometries (setGeometry st') =
                (if geometry st' = None
                 then geometries st @
                   [\<lparr> g_object = object st', g_groups = groups st', g_material = material st',
                      g_data = \<lparr> position = Some [], texcoord = Some [], normal = Some [],
                                 color = Some [] \<rparr> \<rparr>]
                 else geometries st))
       \<and> (arrays_present start \<longrightarrow> run_lines pf start before = Inr st \<longrightarrow> position_present st)
       \<and> ParseObjFile parseFloat_digits init_state
            (''v 0 0 0'' @ NL @ ''v 1 0 0'' @ NL @ ''v 0 1 0'' @ NL @ ''o A'' @ NL @ ''g g1'' @ NL
               @ ''f 1 2 3'')
          = Inr (\<lparr> res_geometries =
                    [\<lparr> g_object = Some ''A'', g_groups = [''g1''], g_material = Some ''default'',
                       g_data = \<lparr> position = Some [0, 0, 0, 1, 0, 0, 0, 1, 0], texcoord = None,
                                  normal = None, color = None \<rparr> \<rparr>],
                  res_materialLibs = [] \<rparr>,
                snd (projr (ParseObjFile parseFloat_digits init_state
                  (''v 0 0 0'' @ NL @ ''v 1 0 0'' @ NL @ ''v 0 1 0'' @ NL @ ''o A'' @ NL @ ''g g1''
                     @ NL @ ''f 1 2 3''))))
       \<and> map_sum id fst (ParseObjFile parseFloat_digits init_state
            (''v 0 0 0'' @ NL @ ''v 1 0 0'' @ NL @ ''v 0 1 0'' @ NL @ ''f 1 2 3'' @ NL
               @ ''usemtl m'' @ NL @ ''g g2'' @ NL @ ''o B'' @ NL @ ''f 3 2 1''))
          = Inr \<lparr> res_geometries =
                    [\<lparr> g_object = Some ''default'', g_groups = [''default''],
                       g_material = Some ''default'',
                       g_data = \<lparr> position = Some [0, 0, 0, 1, 0, 0, 0, 1, 0], texcoord = None,
                                  normal = None, color = None \<rparr> \<rparr>,
                     \<lparr> g_object = Some ''B'', g_groups = [''g2''], g_material = Some ''m'',
                       g_data = \<lparr> position = Some [0, 1, 0, 1, 0, 0, 0, 0, 0], texcoord = None,
                                  normal = None, color = None \<rparr> \<rparr>],
                  res_materialLibs = [] \<rparr>
       \<and> map_sum id fst (ParseObjFile parseFloat_digits init_state
            (''v 0 0 0'' @ NL @ ''v 1 0 0'' @ NL @ ''v 0 1 0'' @ NL @ ''f 1 2'' @ NL
               @ ''o B'' @ NL @ ''g g1'' @ NL @ ''f 1 2 3''))
          = Inr \<lparr> res_geometries =
                    [\<lparr> g_object = Some ''default'', g_groups = [''default''],
                       g_material = Some ''default'',
                       g_data = \<lparr> position = Some [0, 0, 0, 1, 0, 0, 0, 1, 0], texcoord = None,
                                  normal = None, color = None \<rparr> \<rparr>],
                  res_materialLibs = [] \<rparr>"
proof -
  have g: "case run_lines pf st ls of
            Inl e \<Rightarrow> ls \<noteq> [] \<and> \<not> position_present st
          | Inr st' \<Rightarrow>
              geometries st' = geometries st
            \<and> geometry st' = (if holds_position st \<and> ls \<noteq> [] then None else geometry st)
            \<and> geometries (setGeometry st') =
                (if geometry st' = None
                 then geometries st @
                   [\<lparr> g_object = object st', g_groups = groups st', g_material = material st',
                      g_data = \<lparr> position = Some [], texcoord = Some [], normal = Some [],
                                 color = Some [] \<rparr> \<rparr>]
                 else geometries st)"
  proof (cases "position_present st")
    case True
    from state_lines_run [OF assms True, of pf 0] obtain st' where
      r: "run_lines pf st ls = Inr st'" and e: "geometries st' = geometries st"
      and c: "geometry st' = (if holds_position st \<and> ls \<noteq> [] then None else geometry st)"
      by (auto simp: run_lines_def)
    from r e c setGeometry_after [OF e] show ?thesis by simp
  next
    case False
    show ?thesis
    proof (cases ls)
      case Nil
      then show ?thesis by (simp add: run_lines_def setGeometry_after)
    next
      case (Cons l ls')
      with assms have "state_line l" by simp
      from state_line_raises [OF this False, of pf] Cons False show ?thesis
        by (simp add: run_lines_def)
    qed
  qed
  have p: "position_present st" if "arrays_present start" and "run_lines pf start before = Inr st"
    by (rule arrays_present_position [OF run_lines_present [OF that]])
  have e1: "ParseObjFile parseFloat_digits init_state
            (''v 0 0 0'' @ NL @ ''v 1 0 0'' @ NL @ ''v 0 1 0'' @ NL @ ''o A'' @ NL @ ''g g1'' @ NL
               @ ''f 1 2 3'')
          = Inr (\<lparr> res_geometries =
                    [\<lparr> g_object = Some ''A'', g_groups = [''g1''], g_material = Some ''default'',
                       g_data = \<lparr> position = Some [0, 0, 0, 1, 0, 0, 0, 1, 0], texcoord = None,
                                  normal = None, color = None \<rparr> \<rparr>],
                  res_materialLibs = [] \<rparr>,
                snd (projr (ParseObjFile parseFloat_digits init_state
                  (''v 0 0 0'' @ NL @ ''v 1 0 0'' @ NL @ ''v 0 1 0'' @ NL @ ''o A'' @ NL @ ''g g1''
                     @ NL @ ''f 1 2 3''))))"
    by code_simp
  have e2: "map_sum id fst (ParseObjFile parseFloat_digits init_state
            (''v 0 0 0'' @ NL @ ''v 1 0 0'' @ NL @ ''v 0 1 0'' @ NL @ ''f 1 2 3'' @ NL
               @ ''usemtl m'' @ NL @ ''g g2'' @ NL @ ''o B'' @ NL @ ''f 3 2 1''))
          = Inr \<lparr> res_geometries =
                    [\<lparr> g_object = Some ''default'', g_groups = [''default''],
                       g_material = Some ''default'',
                       g_data = \<lparr> position = Some [0, 0, 0, 1, 0, 0, 0, 1, 0], texcoord = None,
                                  normal = None, color = None \<rparr> \<rparr>,
                     \<lparr> g_object = Some ''B'', g_groups = [''g2''], g_material = Some ''m'',
                       g_data = \<lparr> position = Some [0, 1, 0, 1, 0, 0, 0, 0, 0], texcoord = None,
                                  normal = None, color = None \<rparr> \<rparr>],
                  res_materialLibs = [] \<rparr>"
    by code_simp
  have e3: "map_sum id fst (ParseObjFile parseFloat_digits init_state
            (''v 0 0 0'' @ NL @ ''v 1 0 0'' @ NL @ ''v 0 1 0'' @ NL @ ''f 1 2'' @ NL
               @ ''o B'' @ NL @ ''g g1'' @ NL @ ''f 1 2 3''))
          = Inr \<lparr> res_geometries =
                    [\<lparr> g_object = Some ''default'', g_groups = [''default''],
                       g_material = Some ''default'',
                       g_data = \<lparr> position = Some [0, 0, 0, 1, 0, 0, 0, 1, 0], texcoord = None,
                                  normal = None, color = None \<rparr> \<rparr>],
                  res_materialLibs = [] \<rparr>"
    by code_simp
  from g p e1 e2 e3 show ?thesis by blast
qed

theorem state_change_gate_witness:
  "run_lines parseFloat_digits init_state [''v 0 0 0'', ''v 1 0 0'', ''v 0 1 0'', ''f 1 2 3'']
     = Inr \<lparr> objPositions = [[0, 0, 0], [0, 0, 0], [1, 0, 0], [0, 1, 0]],
             objTexcoords = [[0, 0]], objNormals = [[0, 0, 0]], objColors = [[0, 0, 0]],
             materialLibs = [],
             geometries =
               [\<lparr> g_object = Some ''default'', g_groups = [''default''],
                  g_material = Some ''default'',
                  g_data = \<lparr> position = Some [0, 0, 0, 1, 0, 0, 0, 1, 0], texcoord = Some [],
                             normal = Some [], color = Some [] \<rparr> \<rparr>],
             geometry = Some 0, groups = [''default''], material = Some ''default'',
             object = Some ''default'' \<rparr>
   \<and> (\<exists>st'. run_lines parseFloat_digits
               \<lparr> objPositions = [[0, 0, 0], [0, 0, 0], [1, 0, 0], [0, 1, 0]],
                 objTexcoords = [[0, 0]], objNormals = [[0, 0, 0]], objColors = [[0, 0, 0]],
                 materialLibs = [],
                 geometries =
                   [\<lparr> g_object = Some ''default'', g_groups = [''default''],
                      g_material = Some ''default'',
                      g_data = \<lparr> position = Some [0, 0, 0, 1, 0, 0, 0, 1, 0], texcoord = Some [],
                                 normal = Some [], color = Some [] \<rparr> \<rparr>],
                 geometry = Some 0, groups = [''default''], material = Some ''default'',
                 object = Some ''default'' \<rparr>
               [''g x'', ''o y''] = Inr st'
          \<and> length (geometries st') = 1 \<and> geometry st' = None
          \<and> length (geometries (setGeometry st')) = 2)
   \<and> (\<exists>st'. run_lines parseFloat_digits (setGeometry init_state) [''g x'', ''o y''] = Inr st'
          \<and> length (geometries st') = 1 \<and> geometry st' = Some 0
          \<and> length (geometries (setGeometry st')) = 1)"
proof -
  let ?ST = "\<lparr> objPositions = [[0, 0, 0], [0, 0, 0], [1, 0, 0], [0, 1, 0 :: int]],
                 objTexcoords = [[0, 0]], objNormals = [[0, 0, 0]], objColors = [[0, 0, 0]],
                 materialLibs = [],
                 geometries =
                   [\<lparr> g_object = Some ''default'', g_groups = [''default''],
                      g_material = Some ''default'',
                      g_data = \<lparr> position = Some [0, 0, 0, 1, 0, 0, 0, 1, 0], texcoord = Some [],
                                 normal = Some [], color = Some [] \<rparr> \<rparr>],
                 geometry = Some 0, groups = [''default''], material = Some ''default'',
                 object = Some ''default'' \<rparr>"
  let ?E = "setGeometry (init_state :: int obj_state)"
  let ?pre = "[''v 0 0 0'', ''v 1 0 0'', ''v 0 1 0'', ''f 1 2 3'']"
  have s: "\<forall>l \<in> set [''g x'', ''o y'']. state_line l" by code_simp
  have r: "run_lines parseFloat_digits init_state ?pre = Inr ?ST" by code_simp
  have r2: "run_lines parseFloat_digits init_state [''f 1 2''] = Inr ?E" by code_simp
  have a: "arrays_present (init_state :: int obj_state)" by code_simp
  have h: "holds_position ?ST" by code_simp
  have h2: "\<not> holds_position ?E" by code_simp
  have g: "length (geometries ?ST) = 1 \<and> geometry ?ST = Some 0" by simp
  have g2: "length (geometries ?E) = 1 \<and> geometry ?E = Some 0" by code_simp
  note t = state_change_gate [OF s, where pf = parseFloat_digits and st = ?ST
      and start = init_state and before = ?pre]
  note t2 = state_change_gate [OF s, where pf = parseFloat_digits and st = ?E
      and start = init_state and before = "[''f 1 2'']"]
  from t a r have pp: "position_present ?ST" by blast
  from t2 a r2 have pp2: "position_present ?E" by blast
  have 1: "\<exists>st'. run_lines parseFloat_digits ?ST [''g x'', ''o y''] = Inr st'
          \<and> length (geometries st') = 1 \<and> geometry st' = None
          \<and> length (geometries (setGeometry st')) = 2"
  proof (cases "run_lines parseFloat_digits ?ST [''g x'', ''o y'']")
    case (Inl e)
    with t pp show ?thesis by simp
  next
    case (Inr st')
    with t h g show ?thesis by simp
  qed
  have 2: "\<exists>st'. run_lines parseFloat_digits ?E [''g x'', ''o y''] = Inr st'
          \<and> length (geometries st') = 1 \<and> geometry st' = Some 0
          \<and> length (geometries (setGeometry st')) = 1"
  proof (cases "run_lines parseFloat_digits ?E [''g x'', ''o y'']")
    case (Inl e)
    with t2 pp2 show ?thesis by simp
  next
    case (Inr st')
    with t2 h2 g2 show ?thesis by simp
  qed
  from r 1 2 show ?thesis by blast
qed

subsection \<open>Components per emitted vertex\<close>

lemma push_spread_growth:
  assumes p: "push_spread b e st = Inr st'" and d: "current_data st = Some d"
    and g: "get_attr a d = Some arr" and w: "\<And>x. e = Some x \<Longrightarrow> length x = width b"
  shows "\<exists>d' arr'. current_data st' = Some d' \<and> get_attr a d' = Some arr'
           \<and> length arr' = length arr + (if b = a then width a else 0)"
proof -
  from push_spread_Inr [OF p] obtain k arrb x where k: "geometry st = Some k"
    and l: "k < length (geometries st)"
    and gb: "get_attr b (g_data (geometries st ! k)) = Some arrb" and x: "e = Some x"
    and s: "st' = st \<lparr> geometries := (geometries st)
              [k := (geometries st ! k)
                 \<lparr> g_data := set_attr b (Some (arrb @ x)) (g_data (geometries st ! k)) \<rparr>] \<rparr>"
    by blast
  from d k l have dd: "d = g_data (geometries st ! k)" by (simp add: current_data_def)
  from k l have c: "current_data st' = Some (set_attr b (Some (arrb @ x)) d)"
    by (simp add: current_data_def s dd)
  show ?thesis
  proof (cases "b = a")
    case True
    with gb g dd have "arrb = arr" by simp
    with True c w [OF x] show ?thesis by (simp add: get_set_attr)
  next
    case False
    then have "a \<noteq> b" by simp
    from c g False show ?thesis by (simp add: get_set_attr(2) [OF \<open>a \<noteq> b\<close>])
  qed
qed

lemma table_of_slot: "attr_of_slot i = Some b \<Longrightarrow> \<exists>tbl. objVertexData st i = Some tbl"
  by (simp add: attr_of_slot_def objVertexData_def split: if_splits)

lemma addVertex_sub_growth:
  assumes t: "tables_ok st" and d: "current_data st = Some d" and g: "get_attr a d = Some arr"
    and r: "addVertex_sub st s i = Inr st'"
  shows "\<exists>d' arr'. current_data st' = Some d' \<and> get_attr a d' = Some arr'
           \<and> length arr' = length arr + width a * sub_pushes a st s i"
proof (cases "s = []")
  case True
  with r d g show ?thesis by (simp add: addVertex_sub_def sub_pushes_def)
next
  case False
  define mid where "mid index =
      (case (attr_of_slot i, objVertexData st i) of
         (Some a, Some tbl) \<Rightarrow> push_spread a (table_entry tbl index) st
       | _ \<Rightarrow> Inr st)" for index
  from r False obtain index st1 where m: "mid index = Inr st1"
    and f: "(if i = 0 \<and> 1 < length (objColors st1)
             then push_spread Color (table_entry (objColors st1) index) st1
             else Inr st1) = Inr st'"
    by (auto simp: addVertex_sub_def mid_def split: sum.splits)
  have one: "\<exists>d1 arr1. current_data st1 = Some d1 \<and> get_attr a d1 = Some arr1
      \<and> length arr1 = length arr + width a * (if attr_of_slot i = Some a then 1 else 0)
      \<and> same_tables st st1"
  proof (cases "attr_of_slot i")
    case None
    with m d g show ?thesis by (simp add: mid_def same_tables_refl)
  next
    case (Some b)
    from table_of_slot [OF Some, of st] obtain tbl where tb: "objVertexData st i = Some tbl"
      by blast
    with m Some have p: "push_spread b (table_entry tbl index) st = Inr st1"
      by (simp add: mid_def)
    from slot_table_ok [OF t Some tb] have tu: "tuples_of b tbl" .
    have w: "length x = width b" if "table_entry tbl index = Some x" for x
      using tu that by (rule table_entry_width)
    from push_spread_growth [OF p d g w] obtain d1 arr1 where
      "current_data st1 = Some d1" and "get_attr a d1 = Some arr1"
      and "length arr1 = length arr + (if b = a then width a else 0)"
      by blast
    with push_spread_tables [OF p] Some show ?thesis by auto
  qed
  then obtain d1 arr1 where d1: "current_data st1 = Some d1" and g1: "get_attr a d1 = Some arr1"
    and l1: "length arr1 = length arr + width a * (if attr_of_slot i = Some a then 1 else 0)"
    and s1: "same_tables st st1"
    by blast
  from s1 have c: "objColors st1 = objColors st" by (simp add: same_tables_def)
  show ?thesis
  proof (cases "i = 0 \<and> 1 < length (objColors st1)")
    case False
    with f have "st' = st1" by (simp split: if_splits)
    with d1 g1 l1 False c False \<open>s \<noteq> []\<close> show ?thesis by (auto simp: sub_pushes_def)
  next
    case True
    with f have p: "push_spread Color (table_entry (objColors st1) index) st1 = Inr st'"
      by simp
    from t s1 have tu: "tuples_of Color (objColors st1)"
      by (simp add: tables_ok_def same_tables_def)
    have w: "length x = width Color" if "table_entry (objColors st1) index = Some x" for x
      using tu that by (rule table_entry_width)
    from push_spread_growth [OF p d1 g1 w] obtain d' arr' where
      "current_data st' = Some d'" and "get_attr a d' = Some arr'"
      and "length arr' = length arr1 + (if Color = a then width a else 0)"
      by blast
    with l1 True c \<open>s \<noteq> []\<close> show ?thesis
      by (auto simp: sub_pushes_def add_mult_distrib2)
  qed
qed

lemma pushes_from_same:
  "objColors st' = objColors st \<Longrightarrow> pushes_from a st' ptn i = pushes_from a st ptn i"
  by (induction ptn arbitrary: i) (simp_all add: sub_pushes_def)

lemma forEach_growth:
  assumes "tables_ok st" and "current_data st = Some d" and "get_attr a d = Some arr"
    and "forEach_from addVertex_sub st ptn i0 = Inr st'"
  shows "\<exists>d' arr'. current_data st' = Some d' \<and> get_attr a d' = Some arr'
           \<and> length arr' = length arr + width a * pushes_from a st ptn i0"
  using assms
proof (induction ptn arbitrary: st d arr i0)
  case Nil
  then show ?case by simp
next
  case (Cons s ptn)
  from Cons.prems(4) obtain st1 where a: "addVertex_sub st s i0 = Inr st1"
    and r: "forEach_from addVertex_sub st1 ptn (Suc i0) = Inr st'"
    by (auto split: sum.splits)
  from addVertex_sub_growth [OF Cons.prems(1-3) a] obtain d1 arr1 where
    d1: "current_data st1 = Some d1" and g1: "get_attr a d1 = Some arr1"
    and l1: "length arr1 = length arr + width a * sub_pushes a st s i0"
    by blast
  from addVertex_sub_tables [OF a] have s1: "same_tables st st1" .
  with Cons.prems(1) have t1: "tables_ok st1" by (simp add: tables_ok_same)
  from s1 have c: "objColors st1 = objColors st" by (simp add: same_tables_def)
  from Cons.IH [OF t1 d1 g1 r] obtain d' arr' where
    "current_data st' = Some d'" and "get_attr a d' = Some arr'"
    and "length arr' = length arr1 + width a * pushes_from a st1 ptn (Suc i0)"
    by blast
  with l1 pushes_from_same [OF c, of a ptn "Suc i0"] show ?case
    by (simp add: add_mult_distrib2)
qed

lemma pushes_same: "objColors st' = objColors st \<Longrightarrow> pushes a st' vert = pushes a st vert"
  unfolding pushes_def by (rule pushes_from_same)

lemma emit_vertices_growth:
  assumes "tables_ok st" and "current_data st = Some d" and "get_attr a d = Some arr"
    and "emit_vertices st vs = Inr st'"
  shows "\<exists>d' arr'. current_data st' = Some d' \<and> get_attr a d' = Some arr'
           \<and> length arr' = length arr + width a * sum_list (map (pushes a st) vs)"
  using assms
proof (induction vs arbitrary: st d arr)
  case Nil
  then show ?case by simp
next
  case (Cons v vs)
  from Cons.prems(4) obtain st1 where a: "addVertex st v = Inr st1"
    and r: "emit_vertices st1 vs = Inr st'"
    by (auto split: sum.splits)
  from a have fe: "forEach_from addVertex_sub st (split_on (CHR ''/'') v) 0 = Inr st1"
    by (simp add: addVertex_def)
  from forEach_growth [OF Cons.prems(1-3) fe] obtain d1 arr1 where
    d1: "current_data st1 = Some d1" and g1: "get_attr a d1 = Some arr1"
    and l1: "length arr1 = length arr + width a * pushes a st v"
    by (auto simp: pushes_def)
  from addVertex_tables [OF a] have s1: "same_tables st st1" .
  with Cons.prems(1) have t1: "tables_ok st1" by (simp add: tables_ok_same)
  from s1 have c: "objColors st1 = objColors st" by (simp add: same_tables_def)
  from Cons.IH [OF t1 d1 g1 r] obtain d' arr' where
    "current_data st' = Some d'" and "get_attr a d' = Some arr'"
    and "length arr' = length arr1 + width a * sum_list (map (pushes a st1) vs)"
    by blast
  moreover have "pushes a st1 = pushes a st"
    by (rule ext) (rule pushes_same [OF c])
  ultimately show ?case using l1 by (simp add: add_mult_distrib2)
qed

lemma face_growth:
  assumes t: "tables_ok st" and k: "regex_keyword (trim l) = ''f''"
    and p: "process_line pf st l = Inr st'"
    and d: "current_data (setGeometry st) = Some d" and g: "get_attr a d = Some arr"
  shows "\<exists>d' arr'. current_data st' = Some d' \<and> get_attr a d' = Some arr'
           \<and> length arr' = length arr + width a * sum_list (map (pushes a st)
                (concat (map (\<lambda>(x, y, z). [x, y, z])
                   (fan_triangles (drop 1 (split_ws (trim l)))))))"
proof -
  let ?val = "drop 1 (split_ws (trim l))"
  let ?fan = "concat (map (\<lambda>(x, y, z). [x, y, z]) (fan_triangles ?val))"
  have "keywords_obj (regex_keyword (trim l)) = Some (Handler H_f)"
    by (simp add: k keywords_obj_def)
  from process_line_handler [OF this, of pf st] p have "kw_f st ?val = Inr st'" by simp
  moreover have "?fan =
      concat (map (\<lambda>k. [?val ! 0, ?val ! (k + 1), ?val ! (k + 2)]) [0 ..< length ?val - 2])"
    by (simp add: fan_triangles_def comp_def)
  ultimately have e: "emit_vertices (setGeometry st) ?fan = Inr st'"
    by (simp add: kw_f_def f_loop_fan)
  from t have t': "tables_ok (setGeometry st)"
    by (simp add: tables_ok_same [OF setGeometry_tables])
  have c: "objColors (setGeometry st) = objColors st"
    using setGeometry_tables [of st] by (simp add: same_tables_def)
  from emit_vertices_growth [OF t' d g e] obtain d' arr' where
    "current_data st' = Some d'" and "get_attr a d' = Some arr'"
    and "length arr' = length arr + width a * sum_list (map (pushes a (setGeometry st)) ?fan)"
    by blast
  moreover have "pushes a (setGeometry st) = pushes a st"
    by (rule ext) (rule pushes_same [OF c])
  ultimately show ?thesis by (simp only:) blast
qed

lemma keywords_obj_f: "keywords_obj k = Some (Handler H_f) \<Longrightarrow> k = ''f''"
  by (simp add: keywords_obj_def Object_prototype_no_handler split: if_splits)

lemma other_line_geometries:
  assumes k: "regex_keyword (trim l) \<noteq> ''f''" and p: "process_line pf st l = Inr st'"
  shows "geometries st' = geometries st"
proof (cases "keywords_obj (regex_keyword (trim l))")
  case None
  with p show ?thesis by (simp add: unknown_keyword_skipped)
next
  case (Some pr)
  show ?thesis
  proof (cases pr)
    case (Handler h)
    with Some have kh: "keywords_obj (regex_keyword (trim l)) = Some (Handler h)" by simp
    with k have nf: "h \<noteq> H_f" using keywords_obj_f by blast
    from process_line_handler [OF kh, of pf st] p
    have c: "call_handler pf h st (drop 1 (split_ws (trim l))) (regex_RawArguments (trim l))
        = Inr st'"
      by simp
    have n: "geometries s' = geometries s" if "newGeometry s = Inr s'" for s s' :: "'a obj_state"
      using that by (auto simp: newGeometry_def split: option.splits if_splits)
    show ?thesis
    proof (cases h)
      case H_v
      with c show ?thesis by (auto simp: kw_v_def)
    next
      case H_vn
      with c show ?thesis by (auto simp: kw_vn_def)
    next
      case H_vt
      with c show ?thesis by (auto simp: kw_vt_def)
    next
      case H_f
      with nf show ?thesis by simp
    next
      case H_s
      with c show ?thesis by simp
    next
      case H_mtllib
      with c show ?thesis by (auto simp: kw_mtllib_def)
    next
      case H_usemtl
      with c n [of "st \<lparr> material := first_of (drop 1 (split_ws (trim l))) \<rparr>" st']
      show ?thesis by (simp add: kw_usemtl_def)
    next
      case H_g
      with c n [of "st \<lparr> groups := drop 1 (split_ws (trim l)) \<rparr>" st']
      show ?thesis by (simp add: kw_g_def)
    next
      case H_o
      with c n [of "st \<lparr> object := first_of (drop 1 (split_ws (trim l))) \<rparr>" st']
      show ?thesis by (simp add: kw_o_def)
    qed
  next
    case Returns
    with Some p show ?thesis by (auto simp: process_line_def Let_def split: if_splits)
  next
    case Raises
    with Some p show ?thesis by (auto simp: process_line_def Let_def split: if_splits)
  qed
qed

lemma table_lines:
  "regex_keyword (trim l) = ''vn'' \<Longrightarrow>
     process_line pf st l = Inr (st \<lparr> objNormals := objNormals st @ [map pf (drop 1 (split_ws (trim l)))] \<rparr>)"
  "regex_keyword (trim l) = ''vt'' \<Longrightarrow>
     process_line pf st l = Inr (st \<lparr> objTexcoords := objTexcoords st @ [map pf (drop 1 (split_ws (trim l)))] \<rparr>)"
  "regex_keyword (trim l) = ''v'' \<Longrightarrow>
     process_line pf st l = Inr (kw_v pf st (drop 1 (split_ws (trim l))))"
proof -
  assume "regex_keyword (trim l) = ''vn''"
  then have "keywords_obj (regex_keyword (trim l)) = Some (Handler H_vn)"
    by (simp add: keywords_obj_def)
  from process_line_handler [OF this, of pf st]
  show "process_line pf st l = Inr (st \<lparr> objNormals := objNormals st @ [map pf (drop 1 (split_ws (trim l)))] \<rparr>)"
    by (simp add: kw_vn_def)
next
  assume "regex_keyword (trim l) = ''vt''"
  then have "keywords_obj (regex_keyword (trim l)) = Some (Handler H_vt)"
    by (simp add: keywords_obj_def)
  from process_line_handler [OF this, of pf st]
  show "process_line pf st l = Inr (st \<lparr> objTexcoords := objTexcoords st @ [map pf (drop 1 (split_ws (trim l)))] \<rparr>)"
    by (simp add: kw_vt_def)
next
  assume "regex_keyword (trim l) = ''v''"
  then have "keywords_obj (regex_keyword (trim l)) = Some (Handler H_v)"
    by (simp add: keywords_obj_def)
  from process_line_handler [OF this, of pf st]
  show "process_line pf st l = Inr (kw_v pf st (drop 1 (split_ws (trim l))))"
    by simp
qed

lemma push_spread_frame:
  assumes "push_spread b e s = Inr s'"
  shows "geometry s' = geometry s \<and> length (geometries s') = length (geometries s)
       \<and> (\<forall>j. geometry s \<noteq> Some j \<longrightarrow> geometries s' ! j = geometries s ! j)"
proof -
  from push_spread_Inr [OF assms] obtain k arr x where k: "geometry s = Some k"
    and s: "s' = s \<lparr> geometries := (geometries s)
              [k := (geometries s ! k)
                 \<lparr> g_data := set_attr b (Some (arr @ x)) (g_data (geometries s ! k)) \<rparr>] \<rparr>"
    by blast
  from k show ?thesis by (auto simp: s)
qed

lemma face_frame:
  assumes k: "regex_keyword (trim l) = ''f''" and p: "process_line pf st l = Inr st'"
  shows "geometry st' = geometry (setGeometry st)
       \<and> length (geometries st') = length (geometries (setGeometry st))
       \<and> (\<forall>j. geometry (setGeometry st) \<noteq> Some j \<longrightarrow>
             geometries st' ! j = geometries (setGeometry st) ! j)"
proof -
  let ?val = "drop 1 (split_ws (trim l))"
  let ?P = "\<lambda>s. geometry s = geometry (setGeometry st)
       \<and> length (geometries s) = length (geometries (setGeometry st))
       \<and> (\<forall>j. geometry (setGeometry st) \<noteq> Some j \<longrightarrow>
             geometries s ! j = geometries (setGeometry st) ! j)"
  have "keywords_obj (regex_keyword (trim l)) = Some (Handler H_f)"
    by (simp add: k keywords_obj_def)
  from process_line_handler [OF this, of pf st] p have "kw_f st ?val = Inr st'" by simp
  then have e: "emit_vertices (setGeometry st)
      (concat (map (\<lambda>k. [?val ! 0, ?val ! (k + 1), ?val ! (k + 2)]) [0 ..< length ?val - 2]))
      = Inr st'"
    by (simp add: kw_f_def f_loop_fan)
  have push: "?P s'" if "?P s" and "push_spread b e s = Inr s'" for b e s s'
    using push_spread_frame [OF that(2)] that(1) by simp
  have "?P (setGeometry st)" by simp
  from emit_vertices_pushes [of ?P, OF push this e] show ?thesis .
qed

text \<open>
  C6, as amended. When every \<^verbatim>\<open>v\<close> line of the text has exactly 3 or exactly 6
  argument tokens, every \<^verbatim>\<open>vn\<close> line exactly 3 and every \<^verbatim>\<open>vt\<close> line exactly 2,
  and the parse starts from a state that has the fixed widths (3 components for position,
  normal and color, 2 for texcoord), as the initial state does, then every table entry
  is a tuple of the width of its table and every output array present in a returned
  geometry is made of whole tuples. The arrays grow by exactly one tuple for each push:
  an \<^verbatim>\<open>f\<close> line read in a state whose tables have the widths appends to an array of
  the current geometry the width times the number of pushes of its vertex references,
  taken over the triangles of its fan, where a reference pushes once for the non-empty
  sub-index at the slot of the array, and once more onto the color array for a non-empty
  position sub-index while the color table holds more than its sentinel. A line with
  another keyword leaves the arrays of every geometry as they are. Whatever the number
  of tokens, a \<^verbatim>\<open>vn\<close> or \<^verbatim>\<open>vt\<close> line appends one entry with one component for each
  of its tokens, and a \<^verbatim>\<open>v\<close> line one position entry of its first 3 tokens and, when
  it has more, one color entry of the others. An \<^verbatim>\<open>f\<close> line changes no geometry but
  the current one.
\<close>

theorem attribute_widths:
  assumes "widths_ok st"
    and "\<forall>l \<in> set (split_on (CHR 0x0A) text). line_widths_ok l"
    and "ParseObjFile pf st text = Inr (res, st')"
  shows "(\<forall>e \<in> set (objPositions st'). length e = 3)
       \<and> (\<forall>e \<in> set (objTexcoords st'). length e = 2)
       \<and> (\<forall>e \<in> set (objNormals st'). length e = 3)
       \<and> (\<forall>e \<in> set (objColors st'). length e = 3)
       \<and> (\<forall>g \<in> set (res_geometries res). \<forall>b xs.
             get_attr b (g_data g) = Some xs \<longrightarrow> width b dvd length xs)
       \<and> (tables_ok face_st \<longrightarrow> regex_keyword (trim face_line) = ''f'' \<longrightarrow>
            process_line pf face_st face_line = Inr face_st' \<longrightarrow>
            current_data (setGeometry face_st) = Some d \<longrightarrow> get_attr a d = Some arr \<longrightarrow>
            (\<exists>d' arr'. current_data face_st' = Some d' \<and> get_attr a d' = Some arr'
               \<and> length arr' =
                   length arr + width a * sum_list (map (pushes a face_st)
                     (concat (map (\<lambda>(x, y, z). [x, y, z])
                        (fan_triangles (drop 1 (split_ws (trim face_line)))))))))
       \<and> (regex_keyword (trim other_line) \<noteq> ''f'' \<longrightarrow>
            process_line pf other_st other_line = Inr other_st' \<longrightarrow>
            geometries other_st' = geometries other_st)
       \<and> (regex_keyword (trim vn_line) = ''vn'' \<longrightarrow>
            process_line pf tab_st vn_line =
              Inr (tab_st \<lparr> objNormals := objNormals tab_st
                     @ [map pf (drop 1 (split_ws (trim vn_line)))] \<rparr>))
       \<and> (regex_keyword (trim vt_line) = ''vt'' \<longrightarrow>
            process_line pf tab_st vt_line =
              Inr (tab_st \<lparr> objTexcoords := objTexcoords tab_st
                     @ [map pf (drop 1 (split_ws (trim vt_line)))] \<rparr>))
       \<and> (regex_keyword (trim v_line) = ''v'' \<longrightarrow>
            process_line pf tab_st v_line =
              Inr (if 3 < length (drop 1 (split_ws (trim v_line)))
                   then tab_st
                     \<lparr> objPositions := objPositions tab_st
                          @ [map pf (take 3 (drop 1 (split_ws (trim v_line))))],
                       objColors := objColors tab_st
                          @ [map pf (drop 3 (drop 1 (split_ws (trim v_line))))] \<rparr>
                   else tab_st
                     \<lparr> objPositions := objPositions tab_st
                          @ [map pf (drop 1 (split_ws (trim v_line)))] \<rparr>))
       \<and> (regex_keyword (trim face_line) = ''f'' \<longrightarrow>
            process_line pf face_st face_line = Inr face_st' \<longrightarrow>
            geometry face_st' = geometry (setGeometry face_st)
            \<and> length (geometries face_st') = length (geometries (setGeometry face_st))
            \<and> (\<forall>j. geometry (setGeometry face_st) \<noteq> Some j \<longrightarrow>
                  geometries face_st' ! j = geometries (setGeometry face_st) ! j))"
proof -
  from assms(3) obtain st1 where r: "run_lines pf st (split_on (CHR 0x0A) text) = Inr st1"
    and s: "st' = st1 \<lparr> geometries := map cleanup (geometries st1) \<rparr>"
    and g: "res_geometries res = map cleanup (geometries st1)"
    by (auto simp: ParseObjFile_def Let_def split: sum.splits)
  from r have "forEach_from (\<lambda>s l i. process_line pf s l) st (split_on (CHR 0x0A) text) 0 = Inr st1"
    by (simp add: run_lines_def)
  from run_lines_ok [OF assms(1,2) this] have w: "widths_ok st1" .
  then have t: "tables_ok st'" by (simp add: widths_ok_def tables_ok_def s)
  have dv: "width b dvd length xs"
    if "g \<in> set (res_geometries res)" and "get_attr b (g_data g) = Some xs" for g b xs
  proof -
    from that(1) g obtain g0 where "g0 \<in> set (geometries st1)" and c: "g = cleanup g0" by auto
    with w have "data_ok (g_data g0)" by (simp add: widths_ok_def list_all_iff)
    from cleanup_ok [OF this] c have "array_ok b (g_data g)"
      by (cases b) (simp_all add: data_ok_def)
    with that(2) show ?thesis by (simp add: array_ok_def)
  qed
  from t have tb: "(\<forall>e \<in> set (objPositions st'). length e = 3)
       \<and> (\<forall>e \<in> set (objTexcoords st'). length e = 2)
       \<and> (\<forall>e \<in> set (objNormals st'). length e = 3)
       \<and> (\<forall>e \<in> set (objColors st'). length e = 3)"
    by (simp add: tables_ok_def tuples_of_def list_all_iff)
  have v: "process_line pf tab_st v_line =
              Inr (if 3 < length (drop 1 (split_ws (trim v_line)))
                   then tab_st
                     \<lparr> objPositions := objPositions tab_st
                          @ [map pf (take 3 (drop 1 (split_ws (trim v_line))))],
                       objColors := objColors tab_st
                          @ [map pf (drop 3 (drop 1 (split_ws (trim v_line))))] \<rparr>
                   else tab_st
                     \<lparr> objPositions := objPositions tab_st
                          @ [map pf (drop 1 (split_ws (trim v_line)))] \<rparr>)"
    if "regex_keyword (trim v_line) = ''v''"
    using table_lines(3) [OF that, of pf tab_st] by (simp add: kw_v_def)
  from tb dv v face_growth [of face_st face_line pf face_st' d a arr]
    other_line_geometries [of other_line pf other_st other_st']
    table_lines(1) [of vn_line pf tab_st] table_lines(2) [of vt_line pf tab_st]
    face_frame [of face_line pf face_st face_st']
  show ?thesis by blast
qed

theorem attribute_widths_witness:
  "ParseObjFile parseFloat_digits init_state
     (''v 0 0 0'' @ NL @ ''v 1 0 0'' @ NL @ ''v 0 1 0'' @ NL @ ''vt 0 1'' @ NL @ ''f 1/1 2/1 3/1'')
     = Inr (\<lparr> res_geometries =
               [\<lparr> g_object = Some ''default'', g_groups = [''default''],
                  g_material = Some ''default'',
                  g_data = \<lparr> position = Some [0, 0, 0, 1, 0, 0, 0, 1, 0],
                             texcoord = Some [0, 1, 0, 1, 0, 1], normal = None, color = None \<rparr> \<rparr>],
             res_materialLibs = [] \<rparr>,
           snd (projr (ParseObjFile parseFloat_digits init_state
             (''v 0 0 0'' @ NL @ ''v 1 0 0'' @ NL @ ''v 0 1 0'' @ NL @ ''vt 0 1'' @ NL
                @ ''f 1/1 2/1 3/1''))))
   \<and> list_all (\<lambda>e. length e = 2)
       (objTexcoords (snd (projr (ParseObjFile parseFloat_digits init_state
          (''v 0 0 0'' @ NL @ ''v 1 0 0'' @ NL @ ''v 0 1 0'' @ NL @ ''vt 0 1'' @ NL
             @ ''f 1/1 2/1 3/1'')))))
   \<and> (\<exists>d' arr'. current_data (projr (process_line parseFloat_digits
           (init_state \<lparr> objPositions := [[0, 0, 0], [0, 0, 0], [1, 0, 0], [0, 1, 0]],
                         objColors := [[0, 0, 0], [1, 0, 0], [0, 1, 0], [0, 0, 1]] \<rparr>)
           ''f 1///1 2///2 3///3'')) = Some d'
         \<and> get_attr Color d' = Some arr' \<and> length arr' = 18)
   \<and> (\<exists>d' arr'. current_data (projr (process_line parseFloat_digits
           (init_state \<lparr> objPositions := [[0, 0, 0], [0, 0, 0], [1, 0, 0], [0, 1, 0]],
                         objColors := [[0, 0, 0], [1, 0, 0], [0, 1, 0], [0, 0, 1]] \<rparr>)
           ''f 1///1 2///2 3///3'')) = Some d'
         \<and> get_attr Position d' = Some arr' \<and> length arr' = 9)
   \<and> geometries (projr (process_line parseFloat_digits (setGeometry init_state) ''g x''))
       = geometries (setGeometry init_state)
   \<and> process_line parseFloat_digits init_state ''vn 0 0 1 9''
       = Inr (init_state \<lparr> objNormals := [[0, 0, 0], [0, 0, 1, 9]] \<rparr>)
   \<and> process_line parseFloat_digits init_state ''vt 0 1 0''
       = Inr (init_state \<lparr> objTexcoords := [[0, 0], [0, 1, 0]] \<rparr>)
   \<and> process_line parseFloat_digits init_state ''v 1 2 3 4 5 6''
       = Inr (init_state \<lparr> objPositions := [[0, 0, 0], [1, 2, 3]],
                            objColors := [[0, 0, 0], [4, 5, 6]] \<rparr>)"
proof -
  let ?X = "''v 0 0 0'' @ NL @ ''v 1 0 0'' @ NL @ ''v 0 1 0'' @ NL @ ''vt 0 1'' @ NL
              @ ''f 1/1 2/1 3/1''"
  let ?R = "\<lparr> res_geometries =
               [\<lparr> g_object = Some ''default'', g_groups = [''default''],
                  g_material = Some ''default'',
                  g_data = \<lparr> position = Some [0, 0, 0, 1, 0, 0, 0, 1, 0 :: int],
                             texcoord = Some [0, 1, 0, 1, 0, 1], normal = None, color = None \<rparr> \<rparr>],
             res_materialLibs = [] \<rparr>"
  let ?SC = "init_state \<lparr> objPositions := [[0, 0, 0], [0, 0, 0], [1, 0, 0], [0, 1, 0 :: int]],
                         objColors := [[0, 0, 0], [1, 0, 0], [0, 1, 0], [0, 0, 1]] \<rparr>"
  let ?F = "''f 1///1 2///2 3///3''"
  let ?d = "\<lparr> position = Some [], texcoord = Some [], normal = Some [],
              color = Some ([] :: int list) \<rparr>"
  let ?G = "setGeometry (init_state :: int obj_state)"
  have w: "widths_ok (init_state :: int obj_state)" by code_simp
  have l: "\<forall>l \<in> set (split_on (CHR 0x0A) ?X). line_widths_ok l" by code_simp
  have p: "ParseObjFile parseFloat_digits init_state ?X
     = Inr (?R, snd (projr (ParseObjFile parseFloat_digits init_state ?X)))"
    by code_simp
  have f1: "tables_ok ?SC" by code_simp
  have f2: "regex_keyword (trim ?F) = ''f''" by code_simp
  have f3: "process_line parseFloat_digits ?SC ?F
      = Inr (projr (process_line parseFloat_digits ?SC ?F))"
    by code_simp
  have f4: "current_data (setGeometry ?SC) = Some ?d" by code_simp
  have f5: "get_attr Color ?d = Some []" "get_attr Position ?d = Some []" by simp_all
  have f6: "sum_list (map (pushes Color ?SC)
      (concat (map (\<lambda>(x, y, z). [x, y, z]) (fan_triangles (drop 1 (split_ws (trim ?F))))))) = 6"
    by code_simp
  have f7: "sum_list (map (pushes Position ?SC)
      (concat (map (\<lambda>(x, y, z). [x, y, z]) (fan_triangles (drop 1 (split_ws (trim ?F))))))) = 3"
    by code_simp
  have o1: "regex_keyword (trim ''g x'') \<noteq> ''f''" by code_simp
  have o2: "process_line parseFloat_digits ?G ''g x''
      = Inr (projr (process_line parseFloat_digits ?G ''g x''))"
    by code_simp
  have n1: "regex_keyword (trim ''vn 0 0 1 9'') = ''vn''" by code_simp
  have n2: "map parseFloat_digits (drop 1 (split_ws (trim ''vn 0 0 1 9''))) = [0, 0, 1, 9]"
    by code_simp
  have t1: "regex_keyword (trim ''vt 0 1 0'') = ''vt''" by code_simp
  have t2: "map parseFloat_digits (drop 1 (split_ws (trim ''vt 0 1 0''))) = [0, 1, 0]"
    by code_simp
  have v1: "regex_keyword (trim ''v 1 2 3 4 5 6'') = ''v''" by code_simp
  note c = attribute_widths [OF w l p, where face_st = ?SC and face_line = ?F
      and face_st' = "projr (process_line parseFloat_digits ?SC ?F)" and d = ?d and arr = "[]"
      and other_st = ?G and other_line = "''g x''"
      and other_st' = "projr (process_line parseFloat_digits ?G ''g x'')"
      and tab_st = init_state and vn_line = "''vn 0 0 1 9''" and vt_line = "''vt 0 1 0''"
      and v_line = "''v 1 2 3 4 5 6''"]
  from c [where a = Color] f1 f2 f3 f4 f5(1) f6
  have a1: "\<exists>d' arr'. current_data (projr (process_line parseFloat_digits ?SC ?F)) = Some d'
         \<and> get_attr Color d' = Some arr' \<and> length arr' = 18"
    by simp
  from c [where a = Position] f1 f2 f3 f4 f5(2) f7
  have a2: "\<exists>d' arr'. current_data (projr (process_line parseFloat_digits ?SC ?F)) = Some d'
         \<and> get_attr Position d' = Some arr' \<and> length arr' = 9"
    by simp
  from c [where a = Color] o1 o2
  have a3: "geometries (projr (process_line parseFloat_digits ?G ''g x'')) = geometries ?G"
    by blast
  from c [where a = Color] n1 n2
  have a4: "process_line parseFloat_digits init_state ''vn 0 0 1 9''
       = Inr (init_state \<lparr> objNormals := [[0, 0, 0], [0, 0, 1, 9]] \<rparr>)"
    by (simp add: init_state_def)
  from c [where a = Color] t1 t2
  have a5: "process_line parseFloat_digits init_state ''vt 0 1 0''
       = Inr (init_state \<lparr> objTexcoords := [[0, 0], [0, 1, 0]] \<rparr>)"
    by (simp add: init_state_def)
  have v4: "(if 3 < length (drop 1 (split_ws (trim ''v 1 2 3 4 5 6'')))
             then init_state
               \<lparr> objPositions := objPositions init_state
                    @ [map parseFloat_digits (take 3 (drop 1 (split_ws (trim ''v 1 2 3 4 5 6''))))],
                 objColors := objColors init_state
                    @ [map parseFloat_digits (drop 3 (drop 1 (split_ws (trim ''v 1 2 3 4 5 6''))))] \<rparr>
             else init_state
               \<lparr> objPositions := objPositions init_state
                    @ [map parseFloat_digits (drop 1 (split_ws (trim ''v 1 2 3 4 5 6'')))] \<rparr>)
            = init_state \<lparr> objPositions := [[0, 0, 0], [1, 2, 3]],
                              objColors := [[0, 0, 0], [4, 5, 6]] \<rparr>"
    by code_simp
  from c [where a = Color] v1
  have "process_line parseFloat_digits init_state ''v 1 2 3 4 5 6''
       = Inr (if 3 < length (drop 1 (split_ws (trim ''v 1 2 3 4 5 6'')))
             then init_state
               \<lparr> objPositions := objPositions init_state
                    @ [map parseFloat_digits (take 3 (drop 1 (split_ws (trim ''v 1 2 3 4 5 6''))))],
                 objColors := objColors init_state
                    @ [map parseFloat_digits (drop 3 (drop 1 (split_ws (trim ''v 1 2 3 4 5 6''))))] \<rparr>
             else init_state
               \<lparr> objPositions := objPositions init_state
                    @ [map parseFloat_digits (drop 1 (split_ws (trim ''v 1 2 3 4 5 6'')))] \<rparr>)"
    by blast
  then have a6: "process_line parseFloat_digits init_state ''v 1 2 3 4 5 6''
       = Inr (init_state \<lparr> objPositions := [[0, 0, 0], [1, 2, 3]],
                            objColors := [[0, 0, 0], [4, 5, 6]] \<rparr>)"
    by (simp only: v4)
  from c [where a = Color] have a0: "list_all (\<lambda>e. length e = 2)
       (objTexcoords (snd (projr (ParseObjFile parseFloat_digits init_state ?X))))"
    by (simp add: list_all_iff)
  from p a0 a1 a2 a3 a4 a5 a6 show ?thesis by blast
qed

theorem attribute_widths_counterexample:
  "(case ParseObjFile parseFloat_digits init_state
          (''v 0 0 0'' @ NL @ ''vt 0 0 0'' @ NL @ ''f 1/1 1/1 1/1'') of
      Inl e \<Rightarrow> False
    | Inr (res, st) \<Rightarrow>
        objTexcoords st = [[0, 0], [0, 0, 0]]
      \<and> map (\<lambda>g. map_option length (position (g_data g))) (res_geometries res) = [Some 9]
      \<and> map (\<lambda>g. map_option length (texcoord (g_data g))) (res_geometries res) = [Some 9])
   \<and> (case ParseObjFile parseFloat_digits init_state
          (''v 0 0 0 1 0 0'' @ NL @ ''f 1///1 1///1 1///1'') of
      Inl e \<Rightarrow> False
    | Inr (res, st) \<Rightarrow>
        objColors st = [[0, 0, 0], [1, 0, 0]]
      \<and> map (\<lambda>g. map_option length (position (g_data g))) (res_geometries res) = [Some 9]
      \<and> map (\<lambda>g. map_option length (color (g_data g))) (res_geometries res) = [Some 18])"
  by code_simp


section \<open>Properties of the MTL parser\<close>

subsection \<open>Lines and their handlers\<close>

lemma keywords_mtl_Nil: "keywords_mtl [] = None"
  by (simp add: keywords_mtl_def Object_prototype_def)

lemma process_mtl_line_handler:
  assumes "keywords_mtl (regex_keyword (trim l)) = Some (Handler h)"
  shows "process_mtl_line pf st l = call_mtl_handler pf h st (drop 1 (split_ws (trim l)))"
proof -
  from assms have "regex_keyword (trim l) \<noteq> []"
    using keywords_mtl_Nil by auto
  from regex_keyword_nonempty [OF this] assms show ?thesis
    by (simp add: process_mtl_line_def Let_def)
qed

lemma keywords_mtl_newmtl:
  assumes "keywords_mtl k = Some (Handler H_newmtl)"
  shows "k = ''newmtl''"
proof (rule ccontr)
  assume "k \<noteq> ''newmtl''"
  with assms show False
    by (simp add: keywords_mtl_def Object_prototype_no_handler split: if_splits)
qed

subsection \<open>A property before the first material\<close>

lemma write_current_init: "write_current upd mtl_init = Inl TypeError"
  by (simp add: write_current_def mtl_init_def property_key_def Object_prototype_def)

lemma call_mtl_handler_init:
  "h \<noteq> H_newmtl \<Longrightarrow> call_mtl_handler pf h mtl_init val = Inl TypeError"
  by (cases h) (simp_all add: write_current_init)

lemma no_newmtl_line:
  assumes "regex_keyword (trim p) \<noteq> ''newmtl''"
  shows "process_mtl_line pf mtl_init p = Inr mtl_init
       \<or> process_mtl_line pf mtl_init p = Inl TypeError"
proof (cases "keywords_mtl (regex_keyword (trim p))")
  case None
  then show ?thesis by (simp add: process_mtl_line_def Let_def)
next
  case (Some pr)
  show ?thesis
  proof (cases pr)
    case (Handler h)
    with Some assms have "h \<noteq> H_newmtl" using keywords_mtl_newmtl by blast
    with Some Handler process_mtl_line_handler [of p h pf mtl_init] show ?thesis
      by (simp add: call_mtl_handler_init)
  next
    case Returns
    with Some show ?thesis by (simp add: process_mtl_line_def Let_def)
  next
    case Raises
    with Some show ?thesis by (simp add: process_mtl_line_def Let_def)
  qed
qed

lemma no_newmtl_lines:
  assumes "\<forall>p \<in> set pre. regex_keyword (trim p) \<noteq> ''newmtl''"
  shows "forEach_from (\<lambda>s l i. process_mtl_line pf s l) mtl_init pre i = Inr mtl_init
       \<or> forEach_from (\<lambda>s l i. process_mtl_line pf s l) mtl_init pre i = Inl TypeError"
  using assms
proof (induction pre arbitrary: i)
  case Nil
  then show ?case by simp
next
  case (Cons p pre)
  then have "regex_keyword (trim p) \<noteq> ''newmtl''" by simp
  moreover from Cons.prems have "\<forall>p \<in> set pre. regex_keyword (trim p) \<noteq> ''newmtl''" by simp
  ultimately show ?case
    using no_newmtl_line [of p pf] Cons.IH [of "Suc i"] by auto
qed

lemma property_line_init:
  assumes "property_line l"
  shows "process_mtl_line pf mtl_init l = Inl TypeError"
proof -
  from assms obtain h where "keywords_mtl (regex_keyword (trim l)) = Some (Handler h)"
    and "h \<noteq> H_newmtl"
    by (auto simp: property_line_def keywords_mtl_def)
  with process_mtl_line_handler [of l h pf mtl_init] show ?thesis
    by (simp add: call_mtl_handler_init)
qed

text \<open>
  C8: when an MTL text has a property line (\<^verbatim>\<open>Ns\<close>, \<^verbatim>\<open>Kd\<close>, \<^verbatim>\<open>map_Kd\<close>, ...)
  with no \<^verbatim>\<open>newmtl\<close> line before it, \<^verbatim>\<open>ParseMaterialFile\<close> raises a TypeError
  instead of returning: the property line, read in the state that has no current
  material, raises on writing into \<^verbatim>\<open>materials[undefined]\<close>. Nothing is recorded.
\<close>

theorem property_before_newmtl_fails:
  assumes "split_on (CHR 0x0A) text = pre @ l # post"
    and "\<forall>p \<in> set pre. regex_keyword (trim p) \<noteq> ''newmtl''"
    and "property_line l"
  shows "ParseMaterialFile pf text = Inl TypeError
       \<and> process_mtl_line pf mtl_init l = Inl TypeError"
proof -
  have l: "process_mtl_line pf mtl_init l = Inl TypeError"
    by (rule property_line_init [OF assms(3)])
  from no_newmtl_lines [OF assms(2), of pf 0]
  have "forEach_from (\<lambda>s l i. process_mtl_line pf s l) mtl_init (pre @ l # post) 0 = Inl TypeError"
    by (auto simp: forEach_from_append l)
  with l show ?thesis
    by (simp add: ParseMaterialFile_def run_mtl_lines_def assms(1))
qed

theorem property_before_newmtl_fails_witness:
  "ParseMaterialFile parseFloat_digits (''# materials'' @ NL @ ''Kd 1 0 0'' @ NL @ ''newmtl X'')
     = Inl TypeError"
proof -
  have s: "split_on (CHR 0x0A) (''# materials'' @ NL @ ''Kd 1 0 0'' @ NL @ ''newmtl X'')
             = [''# materials''] @ ''Kd 1 0 0'' # [''newmtl X'']"
    by code_simp
  have p: "\<forall>p \<in> set [''# materials'']. regex_keyword (trim p) \<noteq> ''newmtl''" by code_simp
  have k: "property_line ''Kd 1 0 0''" by code_simp
  from property_before_newmtl_fails [OF s p k, of parseFloat_digits] show ?thesis by blast
qed

subsection \<open>Keywords that are not recognized\<close>

text \<open>
  C9: a line whose keyword is not recognized should be skipped. The lookup
  \<^verbatim>\<open>keywords[keyword]\<close> also finds what the object literal inherits, so the line
  \<^verbatim>\<open>valueOf\<close>, whose keyword is no key of either table, is not skipped: the inherited
  function is called and raises, and both parsers abort with a TypeError.
\<close>

theorem inherited_keyword_aborts:
  "keywords_obj ''valueOf'' = Some Raises \<and> keywords_mtl ''valueOf'' = Some Raises
   \<and> ParseObjFile pf st ''valueOf'' = Inl TypeError
   \<and> ParseMaterialFile pf ''valueOf'' = Inl TypeError"
proof -
  have t: "trim ''valueOf'' = ''valueOf''" by code_simp
  have r: "regex_keyword ''valueOf'' = ''valueOf''" by code_simp
  have ko: "keywords_obj ''valueOf'' = Some Raises" by code_simp
  have km: "keywords_mtl ''valueOf'' = Some Raises" by code_simp
  have "process_line pf st ''valueOf'' = Inl TypeError"
    by (simp add: process_line_def Let_def t r ko)
  moreover have "process_mtl_line pf mtl_init ''valueOf'' = Inl TypeError"
    by (simp add: process_mtl_line_def Let_def t r km)
  ultimately show ?thesis
    by (simp add: ParseObjFile_def run_lines_def ParseMaterialFile_def run_mtl_lines_def ko km)
qed

subsection \<open>Texture paths\<close>

lemma split_ws_from_nonempty: "split_ws_from inws cur s \<noteq> []"
  by (induction s arbitrary: inws cur) auto

lemma join_sp_Cons: "ys \<noteq> [] \<Longrightarrow> join_sp (x # ys) = x @ '' '' @ join_sp ys"
  by (cases ys) simp_all

lemma single_spaced_head: "single_spaced s \<Longrightarrow> s \<noteq> [] \<and> \<not> is_ws (hd s)"
  by (cases s rule: single_spaced.cases) simp_all

lemma split_ws_from_start:
  assumes "s \<noteq> []" and "\<not> is_ws (hd s)"
  shows "split_ws_from inws [] s = split_ws_from False [] s"
  using assms by (cases s) simp_all

lemma join_split_single_spaced:
  "single_spaced s \<Longrightarrow> join_sp (split_ws_from False cur s) = rev cur @ s"
proof (induction s arbitrary: cur rule: single_spaced.induct)
  case 1
  then show ?case by simp
next
  case (2 c)
  then show ?case by simp
next
  case (3 c d cs)
  from "3.prems" have c: "\<not> is_ws c" by simp
  show ?case
  proof (cases "d = CHR '' ''")
    case True
    with "3.prems" have s: "single_spaced cs" by simp
    from single_spaced_head [OF s] have "split_ws_from True [] cs = split_ws_from False [] cs"
      by (intro split_ws_from_start) simp_all
    moreover from "3.IH"(1) [OF True s, of "[]"] have "join_sp (split_ws_from False [] cs) = cs"
      by simp
    moreover have "is_ws (CHR '' '')" by (simp add: is_ws_def)
    ultimately show ?thesis
      using c True by (simp add: join_sp_Cons split_ws_from_nonempty)
  next
    case False
    with "3.prems" have s: "single_spaced (d # cs)" by simp
    from "3.IH"(2) [OF False s, of "c # cur"] c show ?thesis by simp
  qed
qed

lemma single_spaced_chars:
  "single_spaced s \<Longrightarrow> c \<in> set s \<Longrightarrow> \<not> is_ws c \<or> c = CHR '' ''"
  by (induction s rule: single_spaced.induct) (auto split: if_splits)

lemma single_spaced_RawArguments:
  assumes "single_spaced s"
  shows "takeWhile (\<lambda>c. \<not> is_line_terminator c) (dropWhile (\<lambda>c. c = CHR '' '') s) = s"
proof -
  from single_spaced_head [OF assms] have "hd s \<noteq> CHR '' ''" and "s \<noteq> []"
    by (auto simp: is_ws_def)
  then have "dropWhile (\<lambda>c. c = CHR '' '') s = s" by (cases s) simp_all
  moreover have "\<not> is_line_terminator c" if "c \<in> set s" for c
    using single_spaced_chars [OF assms that]
    by (auto simp: is_ws_def is_line_terminator_def)
  ultimately show ?thesis by (simp add: takeWhile_eq_all_conv)
qed

lemma map_line_single_spaced:
  assumes "single_spaced rest"
    and "line = ''map_Kd '' @ rest \<or> line = ''map_Ns '' @ rest"
  shows "join_sp (drop 1 (split_ws line)) = rest \<and> regex_RawArguments line = rest"
proof -
  from single_spaced_head [OF assms(1)]
  have st: "split_ws_from True [] rest = split_ws_from False [] rest"
    by (intro split_ws_from_start) simp_all
  have w: "is_ws (CHR '' '')" "\<not> is_ws (CHR ''m'')" "\<not> is_ws (CHR ''a'')" "\<not> is_ws (CHR ''p'')"
    "\<not> is_ws (CHR ''_'')" "\<not> is_ws (CHR ''K'')" "\<not> is_ws (CHR ''d'')" "\<not> is_ws (CHR ''N'')"
    "\<not> is_ws (CHR ''s'')"
    by (simp_all add: is_ws_def)
  have k: "is_word (CHR ''m'')" "is_word (CHR ''a'')" "is_word (CHR ''p'')" "is_word (CHR ''_'')"
    "is_word (CHR ''K'')" "is_word (CHR ''d'')" "is_word (CHR ''N'')" "is_word (CHR ''s'')"
    "\<not> is_word (CHR '' '')"
    by (simp_all add: is_word_def)
  from assms(2) have "drop 1 (split_ws line) = split_ws_from False [] rest"
    by (auto simp: split_ws_def w st)
  with join_split_single_spaced [OF assms(1), of "[]"]
  have "join_sp (drop 1 (split_ws line)) = rest" by simp
  moreover from assms(2) have "regex_RawArguments line =
      takeWhile (\<lambda>c. \<not> is_line_terminator c) (dropWhile (\<lambda>c. c = CHR '' '') rest)"
    by (auto simp: regex_RawArguments_def k)
  ultimately show ?thesis by (simp add: single_spaced_RawArguments [OF assms(1)])
qed

text \<open>
  C7, as amended: a \<^verbatim>\<open>map_Kd\<close> or \<^verbatim>\<open>map_Ns\<close> line stores, on the current material
  record, the tokens that follow the first one, joined by single spaces. Option flags are
  tokens like the others and are kept in the stored path. When the tokens after
  \<^verbatim>\<open>map_Kd \<close> or \<^verbatim>\<open>map_Ns \<close> are separated by single spaces, what is stored is the
  remainder of the line as it is written; a longer run of white space between two tokens
  is stored as one space.
\<close>

theorem map_line_joins_tokens:
  assumes "materials st (property_key (index st)) = Some m"
    and "property_key (index st) \<noteq> ''__proto__''"
    and "val = drop 1 (split_ws (trim l))"
  shows "(regex_keyword (trim l) = ''map_Kd'' \<longrightarrow>
            process_mtl_line pf st l =
              Inr (st \<lparr> materials := (materials st)
                     (property_key (index st) \<mapsto> m \<lparr> diffuseMap := Some (join_sp val) \<rparr>) \<rparr>))
       \<and> (regex_keyword (trim l) = ''map_Ns'' \<longrightarrow>
            process_mtl_line pf st l =
              Inr (st \<lparr> materials := (materials st)
                     (property_key (index st) \<mapsto> m \<lparr> specularMap := Some (join_sp val) \<rparr>) \<rparr>))
       \<and> (single_spaced rest \<longrightarrow>
            (trim l = ''map_Kd '' @ rest \<or> trim l = ''map_Ns '' @ rest) \<longrightarrow>
            join_sp val = rest \<and> regex_RawArguments (trim l) = rest)"
proof (intro conjI impI)
  assume "regex_keyword (trim l) = ''map_Kd''"
  then have "keywords_mtl (regex_keyword (trim l)) = Some (Handler H_map_Kd)"
    by (simp add: keywords_mtl_def)
  from process_mtl_line_handler [OF this, of pf st]
  have "process_mtl_line pf st l = write_current (\<lambda>m. m \<lparr> diffuseMap := Some (join_sp val) \<rparr>) st"
    by (simp add: assms(3))
  with assms(1,2)
  show "process_mtl_line pf st l =
      Inr (st \<lparr> materials := (materials st)
             (property_key (index st) \<mapsto> m \<lparr> diffuseMap := Some (join_sp val) \<rparr>) \<rparr>)"
    by (simp add: write_current_def Let_def)
next
  assume "regex_keyword (trim l) = ''map_Ns''"
  then have "keywords_mtl (regex_keyword (trim l)) = Some (Handler H_map_Ns)"
    by (simp add: keywords_mtl_def)
  from process_mtl_line_handler [OF this, of pf st]
  have "process_mtl_line pf st l = write_current (\<lambda>m. m \<lparr> specularMap := Some (join_sp val) \<rparr>) st"
    by (simp add: assms(3))
  with assms(1,2)
  show "process_mtl_line pf st l =
      Inr (st \<lparr> materials := (materials st)
             (property_key (index st) \<mapsto> m \<lparr> specularMap := Some (join_sp val) \<rparr>) \<rparr>)"
    by (simp add: write_current_def Let_def)
next
  assume "single_spaced rest" and "trim l = ''map_Kd '' @ rest \<or> trim l = ''map_Ns '' @ rest"
  from map_line_single_spaced [OF this] show "join_sp val = rest"
    by (simp add: assms(3))
next
  assume "single_spaced rest" and "trim l = ''map_Kd '' @ rest \<or> trim l = ''map_Ns '' @ rest"
  from map_line_single_spaced [OF this] show "regex_RawArguments (trim l) = rest"
    by simp
qed

theorem map_line_joins_tokens_witness:
  "process_mtl_line parseFloat_digits
     \<lparr> materials = [''X'' \<mapsto> empty_material], materials_proto = None, index = Some ''X'' \<rparr>
     ''map_Kd -s 1 1 1 wood.png''
   = Inr \<lparr> materials = [''X'' \<mapsto> empty_material \<lparr> diffuseMap := Some ''-s 1 1 1 wood.png'' \<rparr>],
           materials_proto = None, index = Some ''X'' \<rparr>
   \<and> regex_RawArguments (trim ''map_Kd -s 1 1 1 wood.png'') = ''-s 1 1 1 wood.png''"
proof -
  let ?st = "\<lparr> materials = [''X'' \<mapsto> empty_material :: int material_rec],
                materials_proto = None, index = Some ''X'' \<rparr>"
  have a: "materials ?st (property_key (index ?st)) = Some empty_material"
    by (simp add: property_key_def)
  have b: "property_key (index ?st) \<noteq> ''__proto__''" by (simp add: property_key_def)
  have v: "[''-s'', ''1'', ''1'', ''1'', ''wood.png'']
             = drop 1 (split_ws (trim ''map_Kd -s 1 1 1 wood.png''))"
    by code_simp
  have k: "regex_keyword (trim ''map_Kd -s 1 1 1 wood.png'') = ''map_Kd''" by code_simp
  have j: "join_sp [''-s'', ''1'', ''1'', ''1'', ''wood.png''] = ''-s 1 1 1 wood.png''" by code_simp
  have t: "trim ''map_Kd -s 1 1 1 wood.png'' = ''map_Kd '' @ ''-s 1 1 1 wood.png''" by code_simp
  have s: "single_spaced ''-s 1 1 1 wood.png''" by code_simp
  from map_line_joins_tokens [OF a b v, of parseFloat_digits "''-s 1 1 1 wood.png''"] k j t s
  show ?thesis by (simp add: property_key_def)
qed

theorem map_line_verbatim_counterexample:
  "case ParseMaterialFile parseFloat_digits (''newmtl X'' @ NL @ ''map_Kd a  b.png'') of
     Inl e \<Rightarrow> False
   | Inr st \<Rightarrow>
       map_option diffuseMap (materials st ''X'') = Some (Some ''a b.png'')
     \<and> regex_RawArguments (trim ''map_Kd a  b.png'') = ''a  b.png''"
  by code_simp

end
